theory Spec2Isabelle
  imports Main "HOL-Library.Sublist"
begin

section \<open>Text\<close>

text \<open>
  Python strings are modelled as \<^typ>\<open>string\<close>, read as sequences of the code points
  0 to 255. The substring test \<^verbatim>\<open>p in s\<close> is \<^const>\<open>sublist\<close>, a match of a literal
  at the start of the text is \<^const>\<open>prefix\<close>.
\<close>

definition backtick :: char where
  "backtick = CHR 0x60"

definition newline :: char where
  "newline = CHR 0x0A"

text \<open>The class \<^verbatim>\<open>\w\<close> of \<^verbatim>\<open>re\<close> on \<^verbatim>\<open>str\<close>: alphanumeric code points and the underscore.\<close>

definition is_word :: "char \<Rightarrow> bool" where
  "is_word c =
     (let n = (of_char c :: nat) in
        (48 \<le> n \<and> n \<le> 57) \<or> (65 \<le> n \<and> n \<le> 90) \<or> n = 95 \<or> (97 \<le> n \<and> n \<le> 122)
        \<or> n = 170 \<or> n = 178 \<or> n = 179 \<or> n = 181 \<or> n = 185 \<or> n = 186
        \<or> n = 188 \<or> n = 189 \<or> n = 190
        \<or> (192 \<le> n \<and> n \<le> 214) \<or> (216 \<le> n \<and> n \<le> 246) \<or> 248 \<le> n)"

text \<open>\<^verbatim>\<open>str.isspace\<close>, which decides what \<^verbatim>\<open>str.strip()\<close> removes.\<close>

definition is_space :: "char \<Rightarrow> bool" where
  "is_space c =
     (let n = (of_char c :: nat) in
        (9 \<le> n \<and> n \<le> 13) \<or> (28 \<le> n \<and> n \<le> 32) \<or> n = 133 \<or> n = 160)"

definition strip :: "string \<Rightarrow> string" where
  "strip s = rev (dropWhile is_space (rev (dropWhile is_space s)))"

text \<open>\<^verbatim>\<open>s.split('\n')\<close>: the pieces between newlines, one more than there are newlines.\<close>

fun split_lines :: "string \<Rightarrow> string list" where
  "split_lines [] = [[]]"
| "split_lines (c # cs) =
     (if c = newline then [] # split_lines cs
      else (case split_lines cs of
              [] \<Rightarrow> [[c]]
            | l # ls \<Rightarrow> (c # l) # ls))"

section \<open>The regular expressions of the script\<close>

subsection \<open>Searching a quoted symbol and a location\<close>

text \<open>
  \<^verbatim>\<open>re.search(marker + "([^d]+)d", s)\<close> for a literal \<open>marker\<close> and a delimiter
  \<open>d\<close>: at one position the greedy class takes the whole run of characters other than
  \<open>d\<close>, which must be non-empty and followed by \<open>d\<close> (a shorter run is followed by a
  character of the run, so backtracking finds nothing more). The search returns group 1 of
  the leftmost position that matches.
\<close>

definition match_delimited :: "string \<Rightarrow> char \<Rightarrow> string \<Rightarrow> string option" where
  "match_delimited marker d s =
     (if prefix marker s then
        (let r = drop (length marker) s;
             g = takeWhile (\<lambda>c. c \<noteq> d) r;
             t = dropWhile (\<lambda>c. c \<noteq> d) r
         in if g \<noteq> [] \<and> t \<noteq> [] then Some g else None)
      else None)"

fun search_delimited :: "string \<Rightarrow> char \<Rightarrow> string \<Rightarrow> string option" where
  "search_delimited marker d [] = match_delimited marker d []"
| "search_delimited marker d (c # cs) =
     (case match_delimited marker d (c # cs) of
        Some g \<Rightarrow> Some g
      | None \<Rightarrow> search_delimited marker d cs)"

text \<open>\<^verbatim>\<open>re.search(r"unused import: `([^`]+)`", warning)\<close>, group 1.\<close>

definition unused_import_name :: "string \<Rightarrow> string option" where
  "unused_import_name warning =
     search_delimited (''unused import: '' @ [backtick]) backtick warning"

text \<open>\<^verbatim>\<open>re.search(r"unused variable: `([^`]+)`", warning)\<close>, group 1.\<close>

definition unused_variable_name :: "string \<Rightarrow> string option" where
  "unused_variable_name warning =
     search_delimited (''unused variable: '' @ [backtick]) backtick warning"

text \<open>\<^verbatim>\<open>re.search(r'--> ([^:]+):', warning)\<close>, group 1.\<close>

definition location_path :: "string \<Rightarrow> string option" where
  "location_path warning = search_delimited ''--> '' (CHR '':'') warning"

subsection \<open>Replacement templates\<close>

datatype error = ReError | OSError

text \<open>
  A replacement string given to \<^verbatim>\<open>re.sub\<close> is a template: a backslash starts an
  escape. Both passes build the replacement from the reported symbol, for patterns
  without a group, so a symbol with a backslash is read as follows (\<^verbatim>\<open>parse_template\<close>):
  the escapes \<^verbatim>\<open>\a \b \f \n \r \t \v \\\<close> stand for one character, \<^verbatim>\<open>\0\<close> with up to
  two more octal digits and a three-digit octal number stand for that code point,
  \<^verbatim>\<open>\g<0>\<close> (any number of zeros) stands for the whole match, a backslash before any
  other character that is not an ASCII letter or digit stays as it is, and everything
  else (another group, an unknown letter, a backslash at the end) raises an exception.
  Group numbers are ASCII digits, as from Python 3.12 on; the other spellings of zero
  that older versions accept with a warning count as errors here. \<open>whole\<close> is the
  text of the match. The template is read before the search starts, so a bad template
  raises whether or not the pattern matches.
\<close>

definition is_octal :: "char \<Rightarrow> bool" where
  "is_octal c = (48 \<le> (of_char c :: nat) \<and> (of_char c :: nat) \<le> 55)"

definition is_digit :: "char \<Rightarrow> bool" where
  "is_digit c = (48 \<le> (of_char c :: nat) \<and> (of_char c :: nat) \<le> 57)"

definition is_ascii_letter :: "char \<Rightarrow> bool" where
  "is_ascii_letter c =
     (let n = (of_char c :: nat) in (65 \<le> n \<and> n \<le> 90) \<or> (97 \<le> n \<and> n \<le> 122))"

definition digit_val :: "char \<Rightarrow> nat" where
  "digit_val c = of_char c - 48"

definition simple_escape :: "char \<Rightarrow> char option" where
  "simple_escape c =
     (if c = CHR ''a'' then Some (CHR 0x07)
      else if c = CHR ''b'' then Some (CHR 0x08)
      else if c = CHR ''f'' then Some (CHR 0x0C)
      else if c = CHR ''n'' then Some (CHR 0x0A)
      else if c = CHR ''r'' then Some (CHR 0x0D)
      else if c = CHR ''t'' then Some (CHR 0x09)
      else if c = CHR ''v'' then Some (CHR 0x0B)
      else if c = CHR 0x5C then Some (CHR 0x5C)
      else None)"

text \<open>
  One escape: \<open>cs\<close> is the text after the backslash; the result is the text the
  escape stands for and the number of characters of \<open>cs\<close> it takes.
\<close>

definition group_escape :: "string \<Rightarrow> string \<Rightarrow> error + string \<times> nat" where
  "group_escape whole cs =
     (let name = takeWhile (\<lambda>x. x \<noteq> CHR ''>'') (drop 2 cs) in
        if prefix ''g<'' cs \<and> length name + 2 < length cs \<and> name \<noteq> []
           \<and> list_all (\<lambda>x. x = CHR ''0'') name
        then Inr (whole, length name + 3)
        else Inl ReError)"

definition zero_escape :: "string \<Rightarrow> error + string \<times> nat" where
  "zero_escape cs =
     (let ds = takeWhile is_octal (take 2 (drop 1 cs)) in
        Inr ([char_of (foldl (\<lambda>a x. 8 * a + digit_val x) 0 ds)], length ds + 1))"

definition digit_escape :: "string \<Rightarrow> error + string \<times> nat" where
  "digit_escape cs =
     (let ds = take 3 cs;
          v = foldl (\<lambda>a x. 8 * a + digit_val x) 0 ds
      in if length ds = 3 \<and> list_all is_octal ds \<and> v \<le> 255
         then Inr ([char_of v], 3)
         else Inl ReError)"

definition escape :: "string \<Rightarrow> string \<Rightarrow> error + string \<times> nat" where
  "escape whole cs =
     (case cs of
        [] \<Rightarrow> Inl ReError
      | c # _ \<Rightarrow>
          if c = CHR ''g'' then group_escape whole cs
          else if c = CHR ''0'' then zero_escape cs
          else if is_digit c then digit_escape cs
          else (case simple_escape c of
                  Some x \<Rightarrow> Inr ([x], 1)
                | None \<Rightarrow> if is_ascii_letter c then Inl ReError else Inr ([CHR 0x5C, c], 1)))"

fun expand_template :: "string \<Rightarrow> string \<Rightarrow> error + string" where
  "expand_template whole [] = Inr []"
| "expand_template whole (c # cs) =
     (if c = CHR 0x5C then
        (case escape whole cs of
           Inl e \<Rightarrow> Inl e
         | Inr (out, n) \<Rightarrow>
             (case expand_template whole (drop n cs) of
                Inl e \<Rightarrow> Inl e
              | Inr t \<Rightarrow> Inr (out @ t)))
      else
        (case expand_template whole cs of
           Inl e \<Rightarrow> Inl e
         | Inr t \<Rightarrow> Inr (c # t)))"

subsection \<open>Substitution\<close>

text \<open>
  \<^verbatim>\<open>re.sub\<close> for a non-empty literal pattern (the first pattern of the import pass is
  \<^verbatim>\<open>"use " + re.escape(name) + ";"\<close>, which matches exactly that text): the text is
  scanned from the left, a match is replaced and the scan goes on after it, any other
  character is copied.
\<close>

fun sub_literal :: "string \<Rightarrow> string \<Rightarrow> string \<Rightarrow> string" where
  "sub_literal pat rep [] = []"
| "sub_literal pat rep (c # cs) =
     (if prefix pat (c # cs) then rep @ sub_literal pat rep (drop (length pat - 1) cs)
      else c # sub_literal pat rep cs)"

text \<open>
  \<^verbatim>\<open>\b\<close> holds between the previous character and the rest of the text when exactly
  one of the two sides is a word character; the start and the end of the text count as
  no word character.
\<close>

definition boundary :: "char option \<Rightarrow> string \<Rightarrow> bool" where
  "boundary prev s =
     ((case prev of None \<Rightarrow> False | Some p \<Rightarrow> is_word p)
      \<noteq> (case s of [] \<Rightarrow> False | c # _ \<Rightarrow> is_word c))"

text \<open>A match of \<^verbatim>\<open>"\\b" + re.escape(name) + "\\b"\<close> at the start of \<open>s\<close>.\<close>

definition match_word :: "string \<Rightarrow> char option \<Rightarrow> string \<Rightarrow> bool" where
  "match_word name prev s =
     (boundary prev s \<and> prefix name s
      \<and> boundary (Some (last name)) (drop (length name) s))"

fun sub_word :: "string \<Rightarrow> string \<Rightarrow> char option \<Rightarrow> string \<Rightarrow> string" where
  "sub_word name rep prev [] = []"
| "sub_word name rep prev (c # cs) =
     (if match_word name prev (c # cs)
      then rep @ sub_word name rep (Some (last name)) (drop (length name - 1) cs)
      else c # sub_word name rep (Some c) cs)"

text \<open>
  The second pattern of the import pass is
  \<^verbatim>\<open>"use ([^;]+{" + re.escape(name) + "[^}]*});"\<close>. After the brace and the name,
  \<^verbatim>\<open>[^}]*\<close> takes the whole run up to the next closing brace, which \<^verbatim>\<open>;\<close> must
  follow. \<open>brace_tail\<close> gives the length of \<^verbatim>\<open>{name...}\<close> matched at the start of
  \<open>s\<close>.
\<close>

definition brace_tail :: "string \<Rightarrow> string \<Rightarrow> nat option" where
  "brace_tail name s =
     (let u = drop (Suc (length name)) s;
          inner = takeWhile (\<lambda>c. c \<noteq> CHR ''}'') u
      in if prefix (CHR ''{'' # name) s \<and> prefix ''};'' (drop (length inner) u)
         then Some (length name + length inner + 2)
         else None)"

text \<open>
  \<^verbatim>\<open>[^;]+\<close> is greedy: it first takes the whole run of characters other than \<^verbatim>\<open>;\<close>
  and gives them back one by one, down to one character, until the rest matches.
\<close>

fun brace_backtrack :: "string \<Rightarrow> string \<Rightarrow> nat \<Rightarrow> nat option" where
  "brace_backtrack name r 0 = None"
| "brace_backtrack name r (Suc k) =
     (case brace_tail name (drop (Suc k) r) of
        Some n \<Rightarrow> Some (Suc k + n)
      | None \<Rightarrow> brace_backtrack name r k)"

text \<open>The length of group 1 when the second pattern matches at the start of \<open>s\<close>.\<close>

definition match_brace :: "string \<Rightarrow> string \<Rightarrow> nat option" where
  "match_brace name s =
     (if prefix ''use '' s
      then brace_backtrack name (drop 4 s)
             (length (takeWhile (\<lambda>c. c \<noteq> CHR '';'') (drop 4 s)))
      else None)"

text \<open>The replacement is the function \<^verbatim>\<open>lambda m: f"// use {m.group(1)};"\<close>.\<close>

fun sub_brace :: "string \<Rightarrow> string \<Rightarrow> string" where
  "sub_brace name [] = []"
| "sub_brace name (c # cs) =
     (case match_brace name (c # cs) of
        Some n \<Rightarrow> ''// use '' @ take n (drop 3 cs) @ '';'' @ sub_brace name (drop (n + 4) cs)
      | None \<Rightarrow> c # sub_brace name cs)"

section \<open>The two passes on a file's content\<close>

text \<open>The body of the loop of \<^verbatim>\<open>fix_unused_imports\<close> for a symbol that was found.\<close>

definition comment_import :: "string \<Rightarrow> string \<Rightarrow> error + string" where
  "comment_import import_name content =
     (let pattern = ''use '' @ import_name @ '';'' in
        case expand_template pattern (''// use '' @ import_name @ '';'') of
          Inl e \<Rightarrow> Inl e
        | Inr replacement \<Rightarrow>
            Inr (sub_brace import_name (sub_literal pattern replacement content)))"

text \<open>The body of the loop of \<^verbatim>\<open>fix_unused_variables\<close> for a symbol that was found.\<close>

definition prefix_variable :: "string \<Rightarrow> string \<Rightarrow> error + string" where
  "prefix_variable var_name content =
     (case expand_template var_name (CHR ''_'' # var_name) of
        Inl e \<Rightarrow> Inl e
      | Inr replacement \<Rightarrow> Inr (sub_word var_name replacement None content))"

text \<open>The loops over the warnings of the file: a warning without a match is skipped.\<close>

fun import_loop :: "string list \<Rightarrow> string \<Rightarrow> error + string" where
  "import_loop [] content = Inr content"
| "import_loop (warning # rest) content =
     (case unused_import_name warning of
        None \<Rightarrow> import_loop rest content
      | Some import_name \<Rightarrow>
          (case comment_import import_name content of
             Inl e \<Rightarrow> Inl e
           | Inr content' \<Rightarrow> import_loop rest content'))"

fun variable_loop :: "string list \<Rightarrow> string \<Rightarrow> error + string" where
  "variable_loop [] content = Inr content"
| "variable_loop (warning # rest) content =
     (case unused_variable_name warning of
        None \<Rightarrow> variable_loop rest content
      | Some var_name \<Rightarrow>
          (case prefix_variable var_name content of
             Inl e \<Rightarrow> Inl e
           | Inr content' \<Rightarrow> variable_loop rest content'))"

text \<open>
  \<^verbatim>\<open>[w for w in warnings if file_path in w and marker in w]\<close>, with the marker
  \<^verbatim>\<open>'unused import'\<close> or \<^verbatim>\<open>'unused variable'\<close>.
\<close>

definition file_warnings :: "string \<Rightarrow> string \<Rightarrow> string list \<Rightarrow> string list" where
  "file_warnings marker file_path warnings =
     filter (\<lambda>w. sublist file_path w \<and> sublist marker w) warnings"

section \<open>Files and the console\<close>

text \<open>
  A path names a file that can be read and written, a file that can only be read, or
  something that exists and cannot be opened as text (a directory, a file without read
  permission, bytes that are not UTF-8). Opening such a thing raises an exception. The
  text kept for a file is the decoded text on disk, with the line ends it has there.
\<close>

datatype node = File string | ReadOnly string | Unreadable

text \<open>
  Both passes open the file without a \<^verbatim>\<open>newline\<close> argument. Reading then turns every
  carriage return followed by a line feed, and every other carriage return, into one
  line feed; writing puts \<^verbatim>\<open>os.linesep\<close> for every line feed, which is a line feed on
  POSIX and a carriage return with a line feed on Windows.
\<close>

definition carriage_return :: char where
  "carriage_return = CHR 0x0D"

fun universal_newlines :: "string \<Rightarrow> string" where
  "universal_newlines [] = []"
| "universal_newlines [c] = [if c = carriage_return then newline else c]"
| "universal_newlines (c # d # cs) =
     (if c = carriage_return \<and> d = newline then newline # universal_newlines cs
      else if c = carriage_return then newline # universal_newlines (d # cs)
      else c # universal_newlines (d # cs))"

datatype platform = Posix | Windows

definition linesep :: "platform \<Rightarrow> string" where
  "linesep p = (case p of Posix \<Rightarrow> [newline] | Windows \<Rightarrow> [carriage_return, newline])"

definition os_newlines :: "platform \<Rightarrow> string \<Rightarrow> string" where
  "os_newlines p s = concat (map (\<lambda>c. if c = newline then linesep p else [c]) s)"

datatype message =
    Start
  | CheckerError
  | Found nat
  | FilesToFix nat
  | Fixing string
  | Finished
  | Rechecking
  | Remaining nat

datatype event = Read string | Write string string | Print message

text \<open>
  \<open>Read\<close> and \<open>Write\<close> record that a file was read and what text the script wrote
  to it.
\<close>

record world =
  files :: "string \<Rightarrow> node option"
  trace :: "event list"
  platform :: platform

definition log :: "event \<Rightarrow> world \<Rightarrow> world" where
  "log e w = w\<lparr>trace := trace w @ [e]\<rparr>"

text \<open>\<^verbatim>\<open>os.path.exists(file_path)\<close>\<close>

definition path_exists :: "world \<Rightarrow> string \<Rightarrow> bool" where
  "path_exists w file_path = (files w file_path \<noteq> None)"

text \<open>\<^verbatim>\<open>with open(file_path, 'r', encoding='utf-8') as f: content = f.read()\<close>\<close>

definition read_file :: "string \<Rightarrow> world \<Rightarrow> (error + string) \<times> world" where
  "read_file file_path w =
     (case files w file_path of
        Some (File stored) \<Rightarrow> (Inr (universal_newlines stored), log (Read file_path) w)
      | Some (ReadOnly stored) \<Rightarrow> (Inr (universal_newlines stored), log (Read file_path) w)
      | Some Unreadable \<Rightarrow> (Inl OSError, w)
      | None \<Rightarrow> (Inl OSError, w))"

text \<open>\<^verbatim>\<open>with open(file_path, 'w', encoding='utf-8') as f: f.write(content)\<close>\<close>

definition write_file :: "string \<Rightarrow> string \<Rightarrow> world \<Rightarrow> (error + unit) \<times> world" where
  "write_file file_path content w =
     (case files w file_path of
        Some (ReadOnly _) \<Rightarrow> (Inl OSError, w)
      | Some Unreadable \<Rightarrow> (Inl OSError, w)
      | _ \<Rightarrow> (Inr (), log (Write file_path content)
                        (w\<lparr>files := (files w)(file_path \<mapsto>
                                       File (os_newlines (platform w) content))\<rparr>)))"

section \<open>The script\<close>

text \<open>
  \<open>spawn\<close> is what \<^verbatim>\<open>subprocess.run(['cargo', 'check'], ...)\<close> does: it returns the two
  output texts, or raises an exception (\<open>None\<close>), which \<^verbatim>\<open>run_cargo_check\<close> catches.
\<close>

definition run_cargo_check :: "(string \<times> string) option \<Rightarrow> world \<Rightarrow> (string \<times> string) \<times> world" where
  "run_cargo_check spawn w =
     (case spawn of
        Some (stdout, stderr) \<Rightarrow> ((stdout, stderr), w)
      | None \<Rightarrow> (([], []), log (Print CheckerError) w))"

definition fix_unused_imports :: "string \<Rightarrow> string list \<Rightarrow> world \<Rightarrow> (error + unit) \<times> world" where
  "fix_unused_imports file_path warnings w =
     (if \<not> path_exists w file_path then (Inr (), w)
      else
        (case read_file file_path w of
           (Inl e, w1) \<Rightarrow> (Inl e, w1)
         | (Inr content, w1) \<Rightarrow>
             (case import_loop (file_warnings ''unused import'' file_path warnings) content of
                Inl e \<Rightarrow> (Inl e, w1)
              | Inr content' \<Rightarrow> write_file file_path content' w1)))"

definition fix_unused_variables :: "string \<Rightarrow> string list \<Rightarrow> world \<Rightarrow> (error + unit) \<times> world" where
  "fix_unused_variables file_path warnings w =
     (if \<not> path_exists w file_path then (Inr (), w)
      else
        (case read_file file_path w of
           (Inl e, w1) \<Rightarrow> (Inl e, w1)
         | (Inr content, w1) \<Rightarrow>
             (case variable_loop (file_warnings ''unused variable'' file_path warnings) content of
                Inl e \<Rightarrow> (Inl e, w1)
              | Inr content' \<Rightarrow> write_file file_path content' w1)))"

text \<open>
  \<^verbatim>\<open>[line.strip() for line in all_output.split('\n') if 'warning:' in line]\<close>
\<close>

definition warning_lines :: "string \<Rightarrow> string list" where
  "warning_lines all_output =
     map strip (filter (sublist ''warning:'') (split_lines all_output))"

text \<open>The path a warning adds to \<^verbatim>\<open>files_to_fix\<close>, if any.\<close>

definition file_of_warning :: "string \<Rightarrow> string option" where
  "file_of_warning warning =
     (if sublist ''-->'' warning then location_path warning else None)"

definition files_to_fix :: "string list \<Rightarrow> string set" where
  "files_to_fix warnings = set (List.map_filter file_of_warning warnings)"

text \<open>
  Python iterates over a set in the order of its hash table. \<open>hash\<close> stands for
  that order: the loop of \<^verbatim>\<open>main\<close> visits each path of the set once, by increasing
  \<open>hash\<close>.
\<close>

definition iteration :: "(string \<Rightarrow> nat) \<Rightarrow> string list \<Rightarrow> string list" where
  "iteration hash warnings =
     sort_key hash (remdups (List.map_filter file_of_warning warnings))"

fun fix_files :: "string list \<Rightarrow> string list \<Rightarrow> world \<Rightarrow> (error + unit) \<times> world" where
  "fix_files [] warnings w = (Inr (), w)"
| "fix_files (file_path # rest) warnings w =
     (case fix_unused_imports file_path warnings (log (Print (Fixing file_path)) w) of
        (Inl e, w1) \<Rightarrow> (Inl e, w1)
      | (Inr _, w1) \<Rightarrow>
          (case fix_unused_variables file_path warnings w1 of
             (Inl e, w2) \<Rightarrow> (Inl e, w2)
           | (Inr _, w2) \<Rightarrow> fix_files rest warnings w2))"

text \<open>
  \<open>spawn1\<close> and \<open>spawn2\<close> are the outcomes of the two runs of the checker, before and
  after the files are patched.
\<close>

definition main ::
  "(string \<times> string) option \<Rightarrow> (string \<times> string) option \<Rightarrow> (string \<Rightarrow> nat) \<Rightarrow> world
     \<Rightarrow> (error + unit) \<times> world" where
  "main spawn1 spawn2 hash w =
     (case run_cargo_check spawn1 (log (Print Start) w) of
        ((stdout, stderr), w1) \<Rightarrow>
          (let warnings = warning_lines (stdout @ stderr);
               w2 = log (Print (Found (length warnings))) w1;
               w3 = log (Print (FilesToFix (card (files_to_fix warnings)))) w2
           in case fix_files (iteration hash warnings) warnings w3 of
                (Inl e, w4) \<Rightarrow> (Inl e, w4)
              | (Inr _, w4) \<Rightarrow>
                  (case run_cargo_check spawn2 (log (Print Rechecking) (log (Print Finished) w4)) of
                     ((stdout', stderr'), w5) \<Rightarrow>
                       (Inr (),
                        log (Print (Remaining
                               (length (filter (sublist ''warning:'')
                                  (split_lines (stdout' @ stderr')))))) w5))))"

section \<open>Whole words\<close>

text \<open>
  The specification of the variable pass speaks of the whole-word occurrences of an
  identifier. \<open>whole_words\<close> cuts a text into its words, the longest runs of word
  characters, and the single characters between them; \<open>prefix_whole_words\<close> puts an
  underscore before each word that is the identifier and keeps every other piece.
\<close>

function whole_words :: "string \<Rightarrow> string list" where
  "whole_words [] = []"
| "whole_words (c # cs) =
     (if is_word c then (c # takeWhile is_word cs) # whole_words (dropWhile is_word cs)
      else [c] # whole_words cs)"
  by pat_completeness auto
termination
  by (relation "measure length") (auto simp: less_Suc_eq_le length_dropWhile_le)

definition prefix_whole_words :: "string \<Rightarrow> string \<Rightarrow> string" where
  "prefix_whole_words name s =
     concat (map (\<lambda>t. if t = name then CHR ''_'' # name else t) (whole_words s))"

text \<open>A text is at an edge when it is empty or starts with a character that is no word character.\<close>

definition edge :: "string \<Rightarrow> bool" where
  "edge s = (case s of [] \<Rightarrow> True | c # _ \<Rightarrow> \<not> is_word c)"

section \<open>Occurrences of a statement\<close>

text \<open>
  The specification of the import pass speaks of the occurrences of a statement in a
  content. A content with \<open>n\<close> occurrences is \<open>n + 1\<close> pieces of text with the
  statement between them; \<open>join sep pieces\<close> is the text made of the pieces with
  \<open>sep\<close> between them.
\<close>

fun join :: "string \<Rightarrow> string list \<Rightarrow> string" where
  "join sep [] = []"
| "join sep [p] = p"
| "join sep (p # q # ps) = p @ sep @ join sep (q # ps)"

section \<open>What the searches find\<close>

lemma match_delimited_Some:
  assumes "match_delimited m d s = Some g"
  shows "\<exists>b. s = m @ g @ d # b" and "g \<noteq> []" and "d \<notin> set g"
proof -
  let ?r = "drop (length m) s"
  from assms have pre: "prefix m s"
    and g: "g = takeWhile (\<lambda>c. c \<noteq> d) ?r"
    and ne: "g \<noteq> []"
    and t: "dropWhile (\<lambda>c. c \<noteq> d) ?r \<noteq> []"
    by (auto simp: match_delimited_def Let_def split: if_splits)
  from t have "hd (dropWhile (\<lambda>c. c \<noteq> d) ?r) = d"
    using hd_dropWhile [of "\<lambda>c. c \<noteq> d" ?r] by simp
  with t obtain b where b: "dropWhile (\<lambda>c. c \<noteq> d) ?r = d # b"
    by (cases "dropWhile (\<lambda>c. c \<noteq> d) ?r") auto
  from pre have "s = m @ ?r"
    by (auto simp: prefix_def)
  also have "?r = g @ d # b"
    using takeWhile_dropWhile_id [of "\<lambda>c. c \<noteq> d" ?r] g b by simp
  finally show "\<exists>b. s = m @ g @ d # b" by blast
  show "g \<noteq> []" by (rule ne)
  show "d \<notin> set g"
    using g by (auto dest: set_takeWhileD)
qed

lemma match_delimited_at:
  assumes "g \<noteq> []" and "d \<notin> set g"
  shows "match_delimited m d (m @ g @ d # b) = Some g"
proof -
  have "takeWhile (\<lambda>c. c \<noteq> d) (g @ d # b) = g"
    using assms(2) by (induction g) auto
  moreover have "dropWhile (\<lambda>c. c \<noteq> d) (g @ d # b) = d # b"
    using assms(2) by (induction g) auto
  ultimately show ?thesis
    using assms(1) by (simp add: match_delimited_def)
qed

lemma search_delimited_Some:
  "search_delimited m d s = Some g \<Longrightarrow>
     (\<exists>a b. s = a @ m @ g @ d # b) \<and> g \<noteq> [] \<and> d \<notin> set g"
proof (induction s)
  case Nil
  then show ?case
    using match_delimited_Some [of m d "[]" g] by auto
next
  case (Cons c cs)
  show ?case
  proof (cases "match_delimited m d (c # cs)")
    case None
    with Cons.prems have "search_delimited m d cs = Some g" by simp
    from Cons.IH [OF this] obtain a b where "cs = a @ m @ g @ d # b" "g \<noteq> []" "d \<notin> set g"
      by blast
    then have "c # cs = (c # a) @ m @ g @ d # b" by simp
    with \<open>g \<noteq> []\<close> \<open>d \<notin> set g\<close> show ?thesis by blast
  next
    case (Some g')
    with Cons.prems have "g' = g" by simp
    with Some match_delimited_Some [of m d "c # cs" g] show ?thesis
      by (metis append_Nil)
  qed
qed

lemma search_delimited_complete:
  assumes "g \<noteq> []" and "d \<notin> set g"
  shows "search_delimited m d (a @ m @ g @ d # b) \<noteq> None"
proof (induction a)
  case Nil
  show ?case
  proof (cases "m @ g @ d # b")
    case Nil
    then show ?thesis by simp
  next
    case (Cons x xs)
    then show ?thesis
      using match_delimited_at [OF assms, of m b] by simp
  qed
next
  case (Cons x a)
  then show ?case
    by (simp split: option.splits)
qed

lemma search_delimited_None_iff:
  "search_delimited m d s = None \<longleftrightarrow>
     \<not> (\<exists>a g b. s = a @ m @ g @ d # b \<and> g \<noteq> [] \<and> d \<notin> set g)"
  using search_delimited_Some [of m d s] search_delimited_complete [of _ d m _ ]
  by (metis not_None_eq)

lemma file_of_warning_Some:
  assumes "file_of_warning w = Some p"
  shows "(\<exists>a b. w = a @ ''--> '' @ p @ '':'' @ b) \<and> p \<noteq> [] \<and> CHR '':'' \<notin> set p"
proof -
  from assms have "search_delimited ''--> '' (CHR '':'') w = Some p"
    by (simp add: file_of_warning_def location_path_def split: if_splits)
  from search_delimited_Some [OF this] show ?thesis by simp
qed

lemma import_loop_skip:
  "unused_import_name w = None \<Longrightarrow>
     import_loop (pre @ w # post) content = import_loop (pre @ post) content"
  by (induction pre arbitrary: content) (auto split: option.splits sum.splits)

lemma variable_loop_skip:
  "unused_variable_name w = None \<Longrightarrow>
     variable_loop (pre @ w # post) content = variable_loop (pre @ post) content"
  by (induction pre arbitrary: content) (auto split: option.splits sum.splits)

lemma file_warnings_append:
  "file_warnings marker p (xs @ ys) = file_warnings marker p xs @ file_warnings marker p ys"
  by (simp add: file_warnings_def)

lemma file_warnings_Cons:
  "file_warnings marker p (x # xs) =
     (if sublist p x \<and> sublist marker x then x # file_warnings marker p xs
      else file_warnings marker p xs)"
  by (simp add: file_warnings_def)

lemma warning_lines_empty: "warning_lines [] = []"
  by (simp add: warning_lines_def)

lemma iteration_empty: "iteration hash [] = []"
  by (simp add: iteration_def)

lemma files_to_fix_empty: "files_to_fix [] = {}"
  by (simp add: files_to_fix_def)

section \<open>The variable pass and whole words\<close>

lemma sub_word_inside:
  assumes "list_all is_word name" and "name \<noteq> []"
  shows "is_word p \<Longrightarrow> list_all is_word r \<Longrightarrow>
     sub_word name rep (Some p) (r @ rest) = r @ sub_word name rep (Some (last (p # r))) rest"
proof (induction r arbitrary: p)
  case Nil
  then show ?case by simp
next
  case (Cons x xs)
  then have "\<not> boundary (Some p) (x # xs @ rest)"
    by (simp add: boundary_def)
  then have "\<not> match_word name (Some p) (x # xs @ rest)"
    by (simp add: match_word_def)
  with Cons show ?case by simp
qed

lemma whole_words_nonword:
  "\<not> is_word c \<Longrightarrow> whole_words (c # cs) = [c] # whole_words cs"
  by simp


lemma edge_dropWhile: "edge (dropWhile is_word cs)"
  by (induction cs) (auto simp: edge_def)

lemma takeWhile_word_run:
  "list_all is_word r \<Longrightarrow> edge y \<Longrightarrow> takeWhile is_word (r @ y) = r"
  by (induction r) (auto simp: edge_def split: list.splits)

lemma dropWhile_word_run:
  "list_all is_word r \<Longrightarrow> edge y \<Longrightarrow> dropWhile is_word (r @ y) = y"
  by (induction r) (auto simp: edge_def split: list.splits)

lemma whole_words_run:
  "list_all is_word r \<Longrightarrow> r \<noteq> [] \<Longrightarrow> edge y \<Longrightarrow> whole_words (r @ y) = r # whole_words y"
  by (cases r) (simp_all add: takeWhile_word_run dropWhile_word_run)

lemma prefix_word_run:
  "list_all is_word name \<Longrightarrow> edge y \<Longrightarrow> prefix name (r @ y) \<Longrightarrow> prefix name r"
proof (induction r arbitrary: name)
  case Nil
  then show ?case
    by (cases name; cases y) (auto simp: edge_def)
next
  case (Cons x xs)
  then show ?case
    by (cases name) auto
qed

lemma match_word_run:
  assumes name: "list_all is_word name" "name \<noteq> []"
    and r: "list_all is_word r" "r \<noteq> []" and y: "edge y"
    and prev: "\<not> (case prev of None \<Rightarrow> False | Some p \<Rightarrow> is_word p)"
  shows "match_word name prev (r @ y) \<longleftrightarrow> r = name"
proof
  assume m: "match_word name prev (r @ y)"
  then have pre: "prefix name (r @ y)"
    and b: "boundary (Some (last name)) (drop (length name) (r @ y))"
    by (simp_all add: match_word_def)
  from prefix_word_run [OF name(1) y pre] obtain z where z: "r = name @ z"
    by (auto simp: prefix_def)
  have "z = []"
  proof (rule ccontr)
    assume "z \<noteq> []"
    then obtain c cs where "z = c # cs" by (cases z) auto
    with z r(1) b name show False
      by (auto simp: boundary_def list_all_iff)
  qed
  with z show "r = name" by simp
next
  assume eq: "r = name"
  from r have "is_word (hd r)" by (cases r) auto
  with prev r(2) have "boundary prev (r @ y)"
    by (cases r) (auto simp: boundary_def)
  moreover from name eq have "is_word (last name)"
    by (simp add: list_all_iff)
  with y have "boundary (Some (last name)) y"
    by (cases y) (auto simp: boundary_def edge_def)
  ultimately show "match_word name prev (r @ y)"
    using eq by (simp add: match_word_def)
qed

lemma match_word_nonword:
  assumes "list_all is_word name" and "name \<noteq> []" and "\<not> is_word c"
  shows "\<not> match_word name prev (c # cs)"
proof
  assume "match_word name prev (c # cs)"
  then have "prefix name (c # cs)" by (simp add: match_word_def)
  with assms(2) have "hd name = c" by (cases name) auto
  with assms show False by (cases name) auto
qed

lemma sub_word_whole_words:
  assumes name: "list_all is_word name" "name \<noteq> []"
  shows "\<not> (case prev of None \<Rightarrow> False | Some p \<Rightarrow> is_word p) \<or> edge s \<Longrightarrow>
    sub_word name rep prev s
      = concat (map (\<lambda>t. if t = name then rep else t) (whole_words s))"
proof (induction s arbitrary: prev rule: whole_words.induct)
  case 1
  show ?case by simp
next
  case (2 c cs)
  show ?case
  proof (cases "is_word c")
    case False
    have "sub_word name rep prev (c # cs) = c # sub_word name rep (Some c) cs"
      using match_word_nonword [OF name False] by simp
    also have "sub_word name rep (Some c) cs
        = concat (map (\<lambda>t. if t = name then rep else t) (whole_words cs))"
      using "2.IH"(2) [OF False, of "Some c"] False by simp
    finally show ?thesis
      using False name by (cases name) auto
  next
    case True
    let ?r = "c # takeWhile is_word cs" and ?y = "dropWhile is_word cs"
    have split: "c # cs = ?r @ ?y" by simp
    have r: "list_all is_word ?r" "?r \<noteq> []"
      using True by (auto simp: list_all_iff dest: set_takeWhileD)
    have y: "edge ?y" by (rule edge_dropWhile)
    from "2.prems" True have prev: "\<not> (case prev of None \<Rightarrow> False | Some p \<Rightarrow> is_word p)"
      by (auto simp: edge_def)
    have m: "match_word name prev (c # cs) \<longleftrightarrow> ?r = name"
      using match_word_run [OF name r y prev] by simp
    have ih: "sub_word name rep q ?y
        = concat (map (\<lambda>t. if t = name then rep else t) (whole_words ?y))" for q
      using "2.IH"(1) [OF True, of q] y by simp
    show ?thesis
    proof (cases "?r = name")
      case eq: True
      then have len: "length name - 1 = length (takeWhile is_word cs)"
        by (metis length_Cons diff_Suc_1)
      have "drop (length name - 1) cs = ?y"
        unfolding len by (metis append_eq_conv_conj takeWhile_dropWhile_id)
      with m eq have "sub_word name rep prev (c # cs)
          = rep @ sub_word name rep (Some (last name)) ?y"
        by simp
      with ih eq True show ?thesis by simp
    next
      case ne: False
      with m have "sub_word name rep prev (c # cs) = c # sub_word name rep (Some c) cs"
        by simp
      also have "sub_word name rep (Some c) cs
          = sub_word name rep (Some c) (takeWhile is_word cs @ ?y)"
        by simp
      also have "\<dots> = takeWhile is_word cs
          @ sub_word name rep (Some (last (c # takeWhile is_word cs))) ?y"
        using sub_word_inside [OF name True, of "takeWhile is_word cs" rep ?y] r(1) by simp
      finally show ?thesis
        using ih ne True by simp
    qed
  qed
qed

lemma prefix_whole_words_nonword:
  assumes "list_all is_word name" and "\<not> is_word c"
  shows "prefix_whole_words name (c # cs) = c # prefix_whole_words name cs"
  using assms by (cases name) (auto simp: prefix_whole_words_def)

lemma prefix_whole_words_run:
  assumes "list_all is_word r" and "r \<noteq> []" and "edge y"
  shows "prefix_whole_words name (r @ y)
    = (if r = name then CHR ''_'' # name else r) @ prefix_whole_words name y"
  using whole_words_run [OF assms] by (simp add: prefix_whole_words_def)

lemma prefix_whole_words_edge:
  assumes "list_all is_word name" and "edge y"
  shows "edge (prefix_whole_words name y)"
proof (cases y)
  case Nil
  then show ?thesis by (simp add: prefix_whole_words_def edge_def)
next
  case (Cons c cs)
  with assms(2) have "\<not> is_word c" by (simp add: edge_def)
  from prefix_whole_words_nonword [OF assms(1) this] Cons \<open>\<not> is_word c\<close>
  show ?thesis by (simp add: edge_def)
qed

lemma underscore_is_word: "is_word (CHR ''_'')"
  by (simp add: is_word_def)

lemma prefix_whole_words_idem:
  assumes name: "list_all is_word name"
  shows "prefix_whole_words name (prefix_whole_words name s) = prefix_whole_words name s"
proof (induction s rule: whole_words.induct)
  case 1
  show ?case by (simp add: prefix_whole_words_def)
next
  case (2 c cs)
  show ?case
  proof (cases "is_word c")
    case False
    with "2.IH"(2) show ?thesis
      by (simp add: prefix_whole_words_nonword [OF name])
  next
    case True
    let ?r = "c # takeWhile is_word cs" and ?y = "dropWhile is_word cs"
    let ?t = "if ?r = name then CHR ''_'' # name else ?r"
    have r: "list_all is_word ?r" "?r \<noteq> []"
      using True by (auto simp: list_all_iff dest: set_takeWhileD)
    have y: "edge ?y" by (rule edge_dropWhile)
    have first: "prefix_whole_words name (c # cs) = ?t @ prefix_whole_words name ?y"
      using prefix_whole_words_run [OF r y, of name] by simp
    have t: "list_all is_word ?t" "?t \<noteq> []"
      using r name underscore_is_word by auto
    have "prefix_whole_words name (?t @ prefix_whole_words name ?y)
        = (if ?t = name then CHR ''_'' # name else ?t)
          @ prefix_whole_words name (prefix_whole_words name ?y)"
      by (rule prefix_whole_words_run [OF t prefix_whole_words_edge [OF name y]])
    also have "(if ?t = name then CHR ''_'' # name else ?t) = ?t"
      by auto
    also have "prefix_whole_words name (prefix_whole_words name ?y) = prefix_whole_words name ?y"
      using "2.IH"(1) [OF True] .
    finally show ?thesis
      unfolding first .
  qed
qed

lemma count_is_word: "list_all is_word ''count''"
  by (simp add: is_word_def)

lemma prefix_variable_count:
  "prefix_variable ''count'' content = Inr (prefix_whole_words ''count'' content)"
proof -
  have "expand_template ''count'' ''_count'' = Inr ''_count''"
    by simp
  moreover have "sub_word ''count'' ''_count'' None content
      = concat (map (\<lambda>t. if t = ''count'' then ''_count'' else t) (whole_words content))"
    by (rule sub_word_whole_words [OF count_is_word]) simp_all
  ultimately show ?thesis
    by (simp add: prefix_variable_def prefix_whole_words_def)
qed

lemma fix_unused_variables_File:
  assumes "files w p = Some (File stored)"
    and "variable_loop (file_warnings ''unused variable'' p ws) (universal_newlines stored) = Inr c'"
  shows "fix_unused_variables p ws w
    = (Inr (), w\<lparr>files := (files w)(p \<mapsto> File (os_newlines (platform w) c')),
                 trace := trace w @ [Read p, Write p c']\<rparr>)"
  using assms
  by (simp add: fix_unused_variables_def path_exists_def read_file_def write_file_def log_def)

lemma fix_unused_imports_File:
  assumes "files w p = Some (File stored)"
    and "import_loop (file_warnings ''unused import'' p ws) (universal_newlines stored) = Inr c'"
  shows "fix_unused_imports p ws w
    = (Inr (), w\<lparr>files := (files w)(p \<mapsto> File (os_newlines (platform w) c')),
                 trace := trace w @ [Read p, Write p c']\<rparr>)"
  using assms
  by (simp add: fix_unused_imports_def path_exists_def read_file_def write_file_def log_def)

section \<open>The import pass on a content\<close>

lemma sub_literal_absent:
  "\<not> sublist pat s \<Longrightarrow> sub_literal pat rep s = s"
proof (induction s)
  case Nil
  show ?case by simp
next
  case (Cons c cs)
  from Cons.prems have "\<not> prefix pat (c # cs)" and "\<not> sublist pat cs"
    by (simp_all add: sublist_Cons_right)
  with Cons.IH show ?case by simp
qed

lemma prefix_straddle:
  assumes "prefix pat (a @ pat @ b)" and "last pat \<notin> set (butlast pat)" and "a \<noteq> []"
  shows "prefix pat a"
proof (rule ccontr)
  assume n: "\<not> prefix pat a"
  with assms(1) obtain us where us: "pat = a @ us" "prefix us (pat @ b)"
    unfolding prefix_append by blast
  from us(1) assms(3) have len: "length us < length pat" by simp
  from n us(1) have ne: "us \<noteq> []" by auto
  from us(2) have "prefix us pat \<or> (\<exists>ws. us = pat @ ws \<and> prefix ws b)"
    unfolding prefix_append .
  with len have "prefix us pat" by auto
  then obtain vs where vs: "pat = us @ vs" unfolding prefix_def by blast
  with len have "vs \<noteq> []" by auto
  with vs have "butlast pat = us @ butlast vs"
    by (metis butlast_append)
  with ne have "last us \<in> set (butlast pat)" by simp
  moreover from us(1) ne have "last pat = last us" by (metis last_append)
  ultimately show False using assms(2) by simp
qed

lemma sub_literal_first:
  assumes "last pat \<notin> set (butlast pat)" and "pat \<noteq> []"
  shows "\<not> sublist pat a \<Longrightarrow>
    sub_literal pat rep (a @ pat @ b) = a @ rep @ sub_literal pat rep b"
proof (induction a)
  case Nil
  from assms(2) obtain p ps where "pat = p # ps" by (cases pat) auto
  then show ?case by simp
next
  case (Cons x a)
  from Cons.prems have np: "\<not> prefix pat (x # a)" and ns: "\<not> sublist pat a"
    by (simp_all add: sublist_Cons_right)
  have "\<not> prefix pat ((x # a) @ pat @ b)"
  proof
    assume "prefix pat ((x # a) @ pat @ b)"
    from prefix_straddle [OF this assms(1)] have "prefix pat (x # a)" by simp
    with np show False by simp
  qed
  then have "sub_literal pat rep ((x # a) @ pat @ b) = x # sub_literal pat rep (a @ pat @ b)"
    by simp
  with Cons.IH [OF ns] show ?case by simp
qed

lemma brace_backtrack_Some:
  "brace_backtrack name r k = Some n \<Longrightarrow> sublist (CHR ''{'' # name) r"
proof (induction k)
  case 0
  then show ?case by simp
next
  case (Suc k)
  show ?case
  proof (cases "brace_tail name (drop (Suc k) r)")
    case None
    with Suc show ?thesis by simp
  next
    case (Some m)
    then have "prefix (CHR ''{'' # name) (drop (Suc k) r)"
      by (simp add: brace_tail_def Let_def split: if_splits)
    then have "sublist (CHR ''{'' # name) (drop (Suc k) r)"
      by (rule prefix_imp_sublist)
    moreover have "sublist (drop (Suc k) r) r"
      by (rule sublist_drop)
    ultimately show ?thesis
      by (rule sublist_order.order.trans)
  qed
qed

lemma match_brace_Some:
  assumes "match_brace name s = Some n"
  shows "sublist (CHR ''{'' # name) s"
proof -
  from assms have "brace_backtrack name (drop 4 s)
      (length (takeWhile (\<lambda>c. c \<noteq> CHR '';'') (drop 4 s))) = Some n"
    by (simp add: match_brace_def split: if_splits)
  then have "sublist (CHR ''{'' # name) (drop 4 s)"
    by (rule brace_backtrack_Some)
  moreover have "sublist (drop 4 s) s"
    by (rule sublist_drop)
  ultimately show ?thesis
    by (rule sublist_order.order.trans)
qed

lemma sub_brace_absent:
  "\<not> sublist (CHR ''{'' # name) s \<Longrightarrow> sub_brace name s = s"
proof (induction s)
  case Nil
  show ?case by simp
next
  case (Cons c cs)
  have "match_brace name (c # cs) = None"
  proof (cases "match_brace name (c # cs)")
    case None
    then show ?thesis .
  next
    case (Some n)
    from match_brace_Some [OF this] Cons.prems show ?thesis by simp
  qed
  moreover from Cons.prems have "\<not> sublist (CHR ''{'' # name) cs"
    by (simp add: sublist_Cons_right)
  ultimately show ?case
    using Cons.IH by simp
qed

lemma prefix_sub_literal:
  assumes "rep \<noteq> []"
  shows "hd rep \<notin> set q \<Longrightarrow> prefix q (sub_literal pat rep s) \<Longrightarrow> prefix q s"
proof (induction s arbitrary: q)
  case Nil
  then show ?case by simp
next
  case (Cons c cs)
  show ?case
  proof (cases q)
    case Nil
    then show ?thesis by simp
  next
    case q: (Cons y ys)
    show ?thesis
    proof (cases "prefix pat (c # cs)")
      case True
      from assms obtain r rs where rep: "rep = r # rs" by (cases rep) auto
      from True Cons.prems(2) q rep have "y = r" by simp
      with Cons.prems(1) q rep show ?thesis by simp
    next
      case False
      with Cons.prems q have "y = c" and "prefix ys (sub_literal pat rep cs)" and "hd rep \<notin> set ys"
        by simp_all
      with Cons.IH [of ys] q show ?thesis by simp
    qed
  qed
qed

lemma sublist_skip:
  "x \<notin> set r \<Longrightarrow> sublist (x # q) (r @ z) \<Longrightarrow> sublist (x # q) z"
proof (induction r)
  case Nil
  then show ?case by simp
next
  case (Cons y r)
  from Cons.prems have "y \<noteq> x" and "x \<notin> set r" by auto
  with Cons.prems(2) have "sublist (x # q) (r @ z)"
    by (simp add: sublist_Cons_right)
  with Cons.IH \<open>x \<notin> set r\<close> show ?case by simp
qed

lemma sublist_sub_literal:
  assumes "rep \<noteq> []" and "hd rep \<notin> set q" and "x \<notin> set rep"
  shows "sublist (x # q) (sub_literal pat rep s) \<Longrightarrow> sublist (x # q) s"
proof (induction s rule: length_induct)
  case (1 s)
  show ?case
  proof (cases s)
    case Nil
    with "1.prems" show ?thesis by simp
  next
    case s: (Cons c cs)
    show ?thesis
    proof (cases "prefix pat (c # cs)")
      case True
      let ?d = "drop (length pat - 1) cs"
      from True "1.prems" s have "sublist (x # q) (rep @ sub_literal pat rep ?d)"
        by simp
      with assms(3) have "sublist (x # q) (sub_literal pat rep ?d)"
        by (rule sublist_skip)
      moreover have "length ?d < length s"
        using s by simp
      ultimately have "sublist (x # q) ?d"
        using "1.IH" by blast
      moreover have "sublist ?d cs"
        by (rule sublist_drop)
      ultimately have "sublist (x # q) cs"
        by (rule sublist_order.order.trans)
      with s show ?thesis
        by (simp add: sublist_Cons_right)
    next
      case False
      with "1.prems" s have "sublist (x # q) (c # sub_literal pat rep cs)"
        by simp
      then consider "prefix (x # q) (c # sub_literal pat rep cs)"
        | "sublist (x # q) (sub_literal pat rep cs)"
        by (auto simp only: sublist_Cons_right)
      then show ?thesis
      proof cases
        case 1
        then have "x = c" and "prefix q (sub_literal pat rep cs)" by simp_all
        from prefix_sub_literal [OF assms(1,2) this(2)] \<open>x = c\<close>
        have "prefix (x # q) (c # cs)" by simp
        with s show ?thesis by (simp add: sublist_Cons_right)
      next
        case 2
        moreover have "length cs < length s" using s by simp
        ultimately have "sublist (x # q) cs"
          using "1.IH" by blast
        with s show ?thesis by (simp add: sublist_Cons_right)
      qed
    qed
  qed
qed

lemma comment_import_foo_Bar:
  "comment_import ''foo::Bar'' content
     = Inr (sub_brace ''foo::Bar'' (sub_literal ''use foo::Bar;'' ''// use foo::Bar;'' content))"
proof -
  have "expand_template ''use foo::Bar;'' ''// use foo::Bar;'' = Inr ''// use foo::Bar;''"
    by simp
  then show ?thesis
    by (simp add: comment_import_def)
qed

lemma comment_import_foo_Bar_plain:
  assumes "\<not> sublist ''{foo::Bar'' content"
  shows "comment_import ''foo::Bar'' content
     = Inr (sub_literal ''use foo::Bar;'' ''// use foo::Bar;'' content)"
proof -
  have "\<not> sublist (CHR ''{'' # ''foo::Bar'')
           (sub_literal ''use foo::Bar;'' ''// use foo::Bar;'' content)"
  proof
    assume "sublist (CHR ''{'' # ''foo::Bar'')
           (sub_literal ''use foo::Bar;'' ''// use foo::Bar;'' content)"
    then have "sublist (CHR ''{'' # ''foo::Bar'') content"
      by (rule sublist_sub_literal [rotated 3]) simp_all
    with assms show False by simp
  qed
  from sub_brace_absent [OF this] show ?thesis
    by (simp only: comment_import_foo_Bar)
qed

section \<open>Line ends\<close>

lemma universal_newlines_Cons:
  "c \<noteq> carriage_return \<Longrightarrow> universal_newlines (c # cs) = c # universal_newlines cs"
  by (cases cs) simp_all

lemma universal_newlines_no_return:
  "carriage_return \<notin> set (universal_newlines s)"
  by (induction s rule: universal_newlines.induct)
     (simp_all add: carriage_return_def newline_def)

lemma universal_newlines_id:
  "carriage_return \<notin> set s \<Longrightarrow> universal_newlines s = s"
proof (induction s)
  case Nil
  show ?case by simp
next
  case (Cons c cs)
  then have "c \<noteq> carriage_return" and "universal_newlines cs = cs"
    by auto
  then show ?case
    by (simp add: universal_newlines_Cons)
qed

lemma universal_os_newlines:
  "carriage_return \<notin> set s \<Longrightarrow> universal_newlines (os_newlines p s) = s"
proof (induction s)
  case Nil
  show ?case by (simp add: os_newlines_def)
next
  case (Cons c cs)
  then have ih: "universal_newlines (os_newlines p cs) = cs" and c: "c \<noteq> carriage_return"
    by auto
  have tail: "os_newlines p (c # cs) = (if c = newline then linesep p else [c]) @ os_newlines p cs"
    by (simp add: os_newlines_def)
  show ?case
  proof (cases "c = newline")
    case False
    with tail c ih show ?thesis
      by (simp add: universal_newlines_Cons)
  next
    case True
    show ?thesis
    proof (cases p)
      case Posix
      with True tail ih show ?thesis
        by (simp add: linesep_def universal_newlines_Cons carriage_return_def newline_def)
    next
      case Windows
      with True tail ih show ?thesis
        by (simp add: linesep_def)
    qed
  qed
qed

lemma concat_whole_words: "concat (whole_words s) = s"
  by (induction s rule: whole_words.induct) simp_all

lemma set_prefix_whole_words:
  "set (prefix_whole_words name s) \<subseteq> set s \<union> set name \<union> {CHR ''_''}"
proof -
  have "set (prefix_whole_words name s)
      \<subseteq> (\<Union>t \<in> set (whole_words s). set t) \<union> set name \<union> {CHR ''_''}"
    by (auto simp: prefix_whole_words_def split: if_splits)
  also have "(\<Union>t \<in> set (whole_words s). set t) = set (concat (whole_words s))"
    by simp
  finally show ?thesis
    by (simp only: concat_whole_words)
qed

lemma prefix_count_no_return:
  "carriage_return \<notin> set s \<Longrightarrow> carriage_return \<notin> set (prefix_whole_words ''count'' s)"
  using set_prefix_whole_words [of "''count''" s]
  by (auto simp: carriage_return_def)

section \<open>Every occurrence of a statement\<close>

lemma first_occurrence:
  assumes "sublist pat s" and "pat \<noteq> []"
  shows "\<exists>a b. s = a @ pat @ b \<and> \<not> sublist pat a"
proof -
  let ?P = "\<lambda>a. \<exists>b. s = a @ pat @ b"
  from assms(1) obtain a0 where "?P a0"
    unfolding sublist_def by blast
  from ex_has_least_nat [of ?P a0 length]
  obtain a where a: "?P a" and least: "\<forall>y. ?P y \<longrightarrow> length a \<le> length y"
    using \<open>?P a0\<close> by blast
  from a obtain b where s: "s = a @ pat @ b" by blast
  have "\<not> sublist pat a"
  proof
    assume "sublist pat a"
    then obtain u v where uv: "a = u @ pat @ v"
      unfolding sublist_def by blast
    with s have "s = u @ pat @ (v @ pat @ b)" by simp
    then have "?P u" by blast
    with least have "length a \<le> length u" by blast
    with uv assms(2) show False by simp
  qed
  with s show ?thesis by blast
qed

lemma sub_literal_join:
  assumes "last pat \<notin> set (butlast pat)" and "pat \<noteq> []"
  shows "ps \<noteq> [] \<Longrightarrow> \<forall>p \<in> set ps. \<not> sublist pat p \<Longrightarrow>
    sub_literal pat rep (join pat ps) = join rep ps"
proof (induction ps rule: induct_list012)
  case 1
  then show ?case by simp
next
  case (2 p)
  then show ?case by (simp add: sub_literal_absent)
next
  case (3 p q qs)
  then have p: "\<not> sublist pat p" and rest: "\<forall>x \<in> set (q # qs). \<not> sublist pat x"
    by simp_all
  have "sub_literal pat rep (p @ pat @ join pat (q # qs))
      = p @ rep @ sub_literal pat rep (join pat (q # qs))"
    by (rule sub_literal_first [OF assms p])
  with "3.IH"(2) rest show ?case by simp
qed

lemma occurrences_exist:
  assumes "pat \<noteq> []"
  shows "\<exists>ps. ps \<noteq> [] \<and> (\<forall>p \<in> set ps. \<not> sublist pat p) \<and> s = join pat ps"
proof (induction s rule: length_induct)
  case (1 s)
  show ?case
  proof (cases "sublist pat s")
    case False
    then have "[s] \<noteq> [] \<and> (\<forall>p \<in> set [s]. \<not> sublist pat p) \<and> s = join pat [s]"
      by simp
    then show ?thesis by blast
  next
    case True
    from first_occurrence [OF True assms] obtain a b
      where s: "s = a @ pat @ b" and a: "\<not> sublist pat a" by blast
    from s assms have "length b < length s" by simp
    with "1.IH" obtain qs where qs: "qs \<noteq> []" "\<forall>p \<in> set qs. \<not> sublist pat p" "b = join pat qs"
      by blast
    from qs(1) obtain q qs' where "qs = q # qs'" by (cases qs) auto
    with s qs a have "a # qs \<noteq> [] \<and> (\<forall>p \<in> set (a # qs). \<not> sublist pat p)
        \<and> s = join pat (a # qs)"
      by simp
    then show ?thesis by blast
  qed
qed

section \<open>The claims\<close>

text \<open>
  C1. As stated for every content and every list of warnings, the claim fails: the
  second pattern also comments out a brace-grouped statement that starts with the symbol,
  further warnings of the list for the file rewrite their own statements, a line
  that names another symbol first is read as a warning for that symbol, so that
  \<^verbatim>\<open>use foo::Bar;\<close> stays, and a file with carriage returns at its line ends is
  written back with line feeds on POSIX.
\<close>

theorem import_pass_changes_other_content:
  "files (snd (fix_unused_imports ''src/a.rs''
       [''warning: unused import: `foo::Bar` --> src/a.rs:1:5'']
       \<lparr>files = [''src/a.rs'' \<mapsto> File ''use foo::Bar;\<newline>use x::{foo::Bar, Y};''],
        trace = [], platform = Posix\<rparr>)) ''src/a.rs''
     = Some (File ''// use foo::Bar;\<newline>// use x::{foo::Bar, Y};'')
   \<and> files (snd (fix_unused_imports ''src/a.rs''
       [''warning: unused import: `foo::Bar` --> src/a.rs:1:5'',
        ''warning: unused import: `baz::Q` --> src/a.rs:2:5'']
       \<lparr>files = [''src/a.rs'' \<mapsto> File ''use foo::Bar;\<newline>use baz::Q;''],
        trace = [], platform = Posix\<rparr>)) ''src/a.rs''
     = Some (File ''// use foo::Bar;\<newline>// use baz::Q;'')
   \<and> sublist ''unused import: `foo::Bar`''
        ''warning: unused import: `a::B`, unused import: `foo::Bar` --> src/a.rs:1:5''
   \<and> files (snd (fix_unused_imports ''src/a.rs''
       [''warning: unused import: `a::B`, unused import: `foo::Bar` --> src/a.rs:1:5'']
       \<lparr>files = [''src/a.rs'' \<mapsto> File ''use foo::Bar;''],
        trace = [], platform = Posix\<rparr>)) ''src/a.rs''
     = Some (File ''use foo::Bar;'')
   \<and> files (snd (fix_unused_imports ''src/a.rs''
       [''warning: unused import: `foo::Bar` --> src/a.rs:1:5'']
       \<lparr>files = [''src/a.rs'' \<mapsto>
                  File (''use foo::Bar;'' @ [CHR 0x0D, CHR 0x0A] @ ''fn f() {}'' @ [CHR 0x0D, CHR 0x0A])],
        trace = [], platform = Posix\<rparr>)) ''src/a.rs''
     = Some (File (''// use foo::Bar;'' @ [CHR 0x0A] @ ''fn f() {}'' @ [CHR 0x0A]))"
  by code_simp

text \<open>
  C1, amended. The import pass selects one warning for a file, the symbol it reads from
  that warning is \<^verbatim>\<open>foo::Bar\<close>, and the content as read (every carriage return with
  its line feed, and every other carriage return, turned into a line feed) holds no
  \<^verbatim>\<open>{foo::Bar\<close>. Then the pass ends without an exception, and however the content
  as read is cut into pieces without \<^verbatim>\<open>use foo::Bar;\<close> that have
  \<^verbatim>\<open>use foo::Bar;\<close> between them, the file afterwards holds the same pieces with
  \<^verbatim>\<open>// use foo::Bar;\<close> between them, each line feed written as the line separator
  of the platform: every occurrence is rewritten and nothing else changes. Every content
  can be cut in this way.
\<close>

theorem unused_import_commented:
  assumes "file_warnings ''unused import'' file_path warnings = [w]"
    and "unused_import_name w = Some ''foo::Bar''"
    and "files world file_path = Some (File stored)"
    and "\<not> (\<exists>u v. universal_newlines stored = u @ ''{foo::Bar'' @ v)"
  shows "fst (fix_unused_imports file_path warnings world) = Inr ()
    \<and> (\<forall>pieces.
          pieces \<noteq> []
          \<and> (\<forall>p \<in> set pieces. \<not> (\<exists>u v. p = u @ ''use foo::Bar;'' @ v))
          \<and> universal_newlines stored = join ''use foo::Bar;'' pieces
          \<longrightarrow> files (snd (fix_unused_imports file_path warnings world)) file_path
                = Some (File (os_newlines (platform world) (join ''// use foo::Bar;'' pieces))))
    \<and> (\<exists>pieces.
          pieces \<noteq> []
          \<and> (\<forall>p \<in> set pieces. \<not> (\<exists>u v. p = u @ ''use foo::Bar;'' @ v))
          \<and> universal_newlines stored = join ''use foo::Bar;'' pieces)"
proof -
  let ?pat = "''use foo::Bar;''" and ?rep = "''// use foo::Bar;''"
  let ?content = "universal_newlines stored"
  from assms(4) have nb: "\<not> sublist ''{foo::Bar'' ?content"
    by (simp add: sublist_def)
  have "import_loop [w] ?content = Inr (sub_literal ?pat ?rep ?content)"
    using assms(2) comment_import_foo_Bar_plain [OF nb] by simp
  then have loop: "import_loop (file_warnings ''unused import'' file_path warnings) ?content
      = Inr (sub_literal ?pat ?rep ?content)"
    by (simp only: assms(1))
  note run = fix_unused_imports_File [OF assms(3) loop]
  have each: "files (snd (fix_unused_imports file_path warnings world)) file_path
      = Some (File (os_newlines (platform world) (join ?rep pieces)))"
    if "pieces \<noteq> []"
      and "\<forall>p \<in> set pieces. \<not> (\<exists>u v. p = u @ ?pat @ v)"
      and "?content = join ?pat pieces" for pieces
  proof -
    from that(2) have "\<forall>p \<in> set pieces. \<not> sublist ?pat p"
      by (simp add: sublist_def)
    with that(1) have "sub_literal ?pat ?rep (join ?pat pieces) = join ?rep pieces"
      by (intro sub_literal_join) simp_all
    with that(3) run show ?thesis by simp
  qed
  have "\<exists>pieces. pieces \<noteq> [] \<and> (\<forall>p \<in> set pieces. \<not> sublist ?pat p)
      \<and> ?content = join ?pat pieces"
    by (rule occurrences_exist) simp
  then have ex: "\<exists>pieces. pieces \<noteq> []
      \<and> (\<forall>p \<in> set pieces. \<not> (\<exists>u v. p = u @ ?pat @ v))
      \<and> ?content = join ?pat pieces"
    by (simp add: sublist_def)
  from run have "fst (fix_unused_imports file_path warnings world) = Inr ()"
    by simp
  with each ex show ?thesis by blast
qed

theorem unused_import_commented_witness:
  "file_warnings ''unused import'' ''src/a.rs''
      [''warning: unused import: `foo::Bar` --> src/a.rs:2:5'']
     = [''warning: unused import: `foo::Bar` --> src/a.rs:2:5'']
   \<and> unused_import_name ''warning: unused import: `foo::Bar` --> src/a.rs:2:5'' = Some ''foo::Bar''
   \<and> universal_newlines
        (''mod m;'' @ [CHR 0x0D, CHR 0x0A] @ ''use foo::Bar;'' @ [CHR 0x0A] @ ''pub use foo::Bar;'')
     = join ''use foo::Bar;'' [''mod m;\<newline>'', ''\<newline>pub '', '''']
   \<and> files (snd (fix_unused_imports ''src/a.rs''
        [''warning: unused import: `foo::Bar` --> src/a.rs:2:5'']
        \<lparr>files = [''src/a.rs'' \<mapsto> File
           (''mod m;'' @ [CHR 0x0D, CHR 0x0A] @ ''use foo::Bar;'' @ [CHR 0x0A] @ ''pub use foo::Bar;'')],
         trace = [], platform = Windows\<rparr>)) ''src/a.rs''
     = Some (File (''mod m;'' @ [CHR 0x0D, CHR 0x0A] @ ''// use foo::Bar;'' @ [CHR 0x0D, CHR 0x0A]
                   @ ''pub // use foo::Bar;''))"
proof -
  let ?ws = "[''warning: unused import: `foo::Bar` --> src/a.rs:2:5'']"
  let ?stored = "''mod m;'' @ [CHR 0x0D, CHR 0x0A] @ ''use foo::Bar;'' @ [CHR 0x0A] @ ''pub use foo::Bar;''"
  let ?world = "\<lparr>files = [''src/a.rs'' \<mapsto> File ?stored], trace = [], platform = Windows\<rparr>"
  let ?pieces = "[''mod m;\<newline>'', ''\<newline>pub '', '''']"
  have 1: "file_warnings ''unused import'' ''src/a.rs'' ?ws = ?ws"
    by code_simp
  have 2: "unused_import_name ''warning: unused import: `foo::Bar` --> src/a.rs:2:5'' = Some ''foo::Bar''"
    by code_simp
  have 3: "files ?world ''src/a.rs'' = Some (File ?stored)"
    by simp
  have "\<not> sublist ''{foo::Bar'' (universal_newlines ?stored)"
    by code_simp
  then have 4: "\<not> (\<exists>u v. universal_newlines ?stored = u @ ''{foo::Bar'' @ v)"
    unfolding sublist_def .
  have "\<not> sublist ''use foo::Bar;'' ''mod m;\<newline>''"
    and "\<not> sublist ''use foo::Bar;'' ''\<newline>pub ''"
    and "\<not> sublist ''use foo::Bar;'' ''''"
    by code_simp+
  then have 5: "\<forall>p \<in> set ?pieces. \<not> (\<exists>u v. p = u @ ''use foo::Bar;'' @ v)"
    by (simp add: sublist_def)
  have 6: "universal_newlines ?stored = join ''use foo::Bar;'' ?pieces"
    by code_simp
  have 7: "os_newlines Windows (join ''// use foo::Bar;'' ?pieces)
      = ''mod m;'' @ [CHR 0x0D, CHR 0x0A] @ ''// use foo::Bar;'' @ [CHR 0x0D, CHR 0x0A]
        @ ''pub // use foo::Bar;''"
    by code_simp
  from unused_import_commented [OF 1 2 3 4] 5 6
  have "files (snd (fix_unused_imports ''src/a.rs'' ?ws ?world)) ''src/a.rs''
      = Some (File (os_newlines (platform ?world) (join ''// use foo::Bar;'' ?pieces)))"
    by blast
  then have "files (snd (fix_unused_imports ''src/a.rs'' ?ws ?world)) ''src/a.rs''
      = Some (File (''mod m;'' @ [CHR 0x0D, CHR 0x0A] @ ''// use foo::Bar;'' @ [CHR 0x0D, CHR 0x0A]
                   @ ''pub // use foo::Bar;''))"
    using 7 by simp
  with 1 2 6 show ?thesis by blast
qed

text \<open>
  C2. The second pattern wants the symbol right after the opening brace. With the
  unused import \<^verbatim>\<open>Bar\<close>, the statement \<^verbatim>\<open>use foo::{A, Bar};\<close> is written back as it
  is, while \<^verbatim>\<open>use foo::{Bar, A};\<close> is commented out.
\<close>

theorem brace_import_not_first:
  "files (snd (fix_unused_imports ''src/a.rs''
                 [''warning: unused import: `Bar` --> src/a.rs:1:15'']
                 \<lparr>files = [''src/a.rs'' \<mapsto> File ''use foo::{A, Bar};''], trace = [], platform = Posix\<rparr>))
      ''src/a.rs''
     = Some (File ''use foo::{A, Bar};'')
   \<and> files (snd (fix_unused_imports ''src/a.rs''
                 [''warning: unused import: `Bar` --> src/a.rs:1:11'']
                 \<lparr>files = [''src/a.rs'' \<mapsto> File ''use foo::{Bar, A};''], trace = [], platform = Posix\<rparr>))
      ''src/a.rs''
     = Some (File ''// use foo::{Bar, A};'')"
  by code_simp

text \<open>
  C3. Running the variable pass again, with the same warning for \<^verbatim>\<open>count\<close>, on the
  file the pass has patched leaves the content of every file as it is: the words
  \<^verbatim>\<open>_count\<close> are no whole-word occurrences of \<^verbatim>\<open>count\<close>, so nothing becomes
  \<^verbatim>\<open>__count\<close>, and the line ends written by the first run are read back and written
  again as they are. The patched file holds the content as read, with every whole word
  \<^verbatim>\<open>count\<close> prefixed, each line feed written as the line separator of the platform.
\<close>

theorem variable_pass_idempotent:
  assumes "file_warnings ''unused variable'' file_path warnings = [w]"
    and "unused_variable_name w = Some ''count''"
    and "files world file_path = Some (File stored)"
    and "fix_unused_variables file_path warnings world = (r, patched)"
  shows "r = Inr ()
    \<and> files patched file_path
        = Some (File (os_newlines (platform world)
                        (prefix_whole_words ''count'' (universal_newlines stored))))
    \<and> fst (fix_unused_variables file_path warnings patched) = Inr ()
    \<and> files (snd (fix_unused_variables file_path warnings patched)) = files patched
    \<and> variable_loop [w] (prefix_whole_words ''count'' (universal_newlines stored))
        = Inr (prefix_whole_words ''count'' (universal_newlines stored))"
proof -
  let ?c = "prefix_whole_words ''count'' (universal_newlines stored)"
  have loop: "variable_loop [w] c = Inr (prefix_whole_words ''count'' c)" for c
    using assms(2) by (simp add: prefix_variable_count)
  from fix_unused_variables_File [OF assms(3), of warnings ?c] loop assms(1,4)
  have r: "r = Inr ()"
    and patched: "files patched file_path = Some (File (os_newlines (platform world) ?c))"
    and same: "platform patched = platform world"
    by auto
  have "carriage_return \<notin> set ?c"
    by (rule prefix_count_no_return) (rule universal_newlines_no_return)
  then have roundtrip: "universal_newlines (os_newlines (platform world) ?c) = ?c"
    by (rule universal_os_newlines)
  have again: "variable_loop [w] ?c = Inr ?c"
    using loop [of ?c] by (simp only: prefix_whole_words_idem [OF count_is_word])
  then have "variable_loop (file_warnings ''unused variable'' file_path warnings)
      (universal_newlines (os_newlines (platform world) ?c)) = Inr ?c"
    by (simp only: roundtrip assms(1))
  from fix_unused_variables_File [OF patched this]
  have "fix_unused_variables file_path warnings patched
      = (Inr (), patched\<lparr>files := (files patched)(file_path \<mapsto>
                                      File (os_newlines (platform patched) ?c)),
                         trace := trace patched @ [Read file_path, Write file_path ?c]\<rparr>)" .
  moreover have "(files patched)(file_path \<mapsto> File (os_newlines (platform patched) ?c))
      = files patched"
    unfolding same using patched by (rule fun_upd_idem)
  ultimately show ?thesis
    using r patched again by simp
qed


theorem variable_pass_idempotent_witness:
  "file_warnings ''unused variable'' ''src/a.rs''
      [''warning: unused variable: `count` --> src/a.rs:1:5'']
     = [''warning: unused variable: `count` --> src/a.rs:1:5'']
   \<and> unused_variable_name ''warning: unused variable: `count` --> src/a.rs:1:5'' = Some ''count''
   \<and> files (snd (fix_unused_variables ''src/a.rs''
        [''warning: unused variable: `count` --> src/a.rs:1:5'']
        \<lparr>files = [''src/a.rs'' \<mapsto> File (''let count = 3;'' @ [CHR 0x0D, CHR 0x0A] @ ''count'')],
         trace = [], platform = Windows\<rparr>)) ''src/a.rs''
     = Some (File (''let _count = 3;'' @ [CHR 0x0D, CHR 0x0A] @ ''_count''))
   \<and> files (snd (fix_unused_variables ''src/a.rs''
        [''warning: unused variable: `count` --> src/a.rs:1:5'']
        (snd (fix_unused_variables ''src/a.rs''
           [''warning: unused variable: `count` --> src/a.rs:1:5'']
           \<lparr>files = [''src/a.rs'' \<mapsto> File (''let count = 3;'' @ [CHR 0x0D, CHR 0x0A] @ ''count'')],
            trace = [], platform = Windows\<rparr>)))) ''src/a.rs''
     = Some (File (''let _count = 3;'' @ [CHR 0x0D, CHR 0x0A] @ ''_count''))"
proof -
  let ?ws = "[''warning: unused variable: `count` --> src/a.rs:1:5'']"
  let ?stored = "''let count = 3;'' @ [CHR 0x0D, CHR 0x0A] @ ''count''"
  let ?world = "\<lparr>files = [''src/a.rs'' \<mapsto> File ?stored], trace = [], platform = Windows\<rparr>"
  have 1: "file_warnings ''unused variable'' ''src/a.rs'' ?ws = ?ws"
    by code_simp
  have 2: "unused_variable_name ''warning: unused variable: `count` --> src/a.rs:1:5'' = Some ''count''"
    by code_simp
  have 3: "files ?world ''src/a.rs'' = Some (File ?stored)"
    by simp
  have 4: "fix_unused_variables ''src/a.rs'' ?ws ?world
      = (fst (fix_unused_variables ''src/a.rs'' ?ws ?world),
         snd (fix_unused_variables ''src/a.rs'' ?ws ?world))"
    by simp
  have 5: "os_newlines Windows (prefix_whole_words ''count'' (universal_newlines ?stored))
      = ''let _count = 3;'' @ [CHR 0x0D, CHR 0x0A] @ ''_count''"
    by code_simp
  note inst = variable_pass_idempotent [OF 1 2 3 4]
  from inst have first: "files (snd (fix_unused_variables ''src/a.rs'' ?ws ?world)) ''src/a.rs''
      = Some (File (os_newlines (platform ?world)
                      (prefix_whole_words ''count'' (universal_newlines ?stored))))"
    by blast
  from inst have "files (snd (fix_unused_variables ''src/a.rs'' ?ws
          (snd (fix_unused_variables ''src/a.rs'' ?ws ?world))))
      = files (snd (fix_unused_variables ''src/a.rs'' ?ws ?world))"
    by blast
  with first have second: "files (snd (fix_unused_variables ''src/a.rs'' ?ws
          (snd (fix_unused_variables ''src/a.rs'' ?ws ?world)))) ''src/a.rs''
      = Some (File (os_newlines (platform ?world)
                      (prefix_whole_words ''count'' (universal_newlines ?stored))))"
    by simp
  from first second 5 1 2 show ?thesis
    by simp
qed

text \<open>
  C4. As stated for every list of warnings, the claim fails: when the list also holds a
  warning for \<^verbatim>\<open>_count\<close> for the same file, the word \<^verbatim>\<open>count\<close> ends as
  \<^verbatim>\<open>__count\<close>.
\<close>

theorem second_warning_prefixes_again:
  "file_warnings ''unused variable'' ''src/a.rs''
      [''warning: unused variable: `count` --> src/a.rs:1:5'',
       ''warning: unused variable: `_count` --> src/a.rs:2:5'']
     = [''warning: unused variable: `count` --> src/a.rs:1:5'',
        ''warning: unused variable: `_count` --> src/a.rs:2:5'']
   \<and> unused_variable_name ''warning: unused variable: `count` --> src/a.rs:1:5'' = Some ''count''
   \<and> files (snd (fix_unused_variables ''src/a.rs''
        [''warning: unused variable: `count` --> src/a.rs:1:5'',
         ''warning: unused variable: `_count` --> src/a.rs:2:5'']
        \<lparr>files = [''src/a.rs'' \<mapsto> File ''let count = 1;''],
         trace = [], platform = Posix\<rparr>)) ''src/a.rs''
     = Some (File ''let __count = 1;'')"
  by code_simp

text \<open>
  C4, amended. When the variable pass selects one warning for a file and that warning
  reports \<^verbatim>\<open>count\<close>, the pass writes back the content as read (every carriage return
  with its line feed, and every other carriage return, turned into a line feed) with
  every whole word \<^verbatim>\<open>count\<close> replaced by \<^verbatim>\<open>_count\<close> and every other piece of the
  text as it was, each line feed written as the line separator of the platform: a longer
  word that contains \<^verbatim>\<open>count\<close>, such as \<^verbatim>\<open>discounted\<close>, is another word and stays.
\<close>

theorem unused_variable_whole_words:
  assumes "file_warnings ''unused variable'' file_path warnings = [w]"
    and "unused_variable_name w = Some ''count''"
    and "files world file_path = Some (File stored)"
  shows "variable_loop [w] content = Inr (prefix_whole_words ''count'' content)
    \<and> fst (fix_unused_variables file_path warnings world) = Inr ()
    \<and> files (snd (fix_unused_variables file_path warnings world)) file_path
        = Some (File (os_newlines (platform world)
                        (concat (map (\<lambda>t. if t = ''count'' then ''_count'' else t)
                                  (whole_words (universal_newlines stored))))))"
proof -
  have loop: "variable_loop [w] c = Inr (prefix_whole_words ''count'' c)" for c
    using assms(2) by (simp add: prefix_variable_count)
  from fix_unused_variables_File [OF assms(3), of warnings] loop assms(1)
  show ?thesis
    by (simp add: prefix_whole_words_def)
qed

theorem unused_variable_whole_words_witness:
  "file_warnings ''unused variable'' ''src/a.rs''
      [''warning: unused variable: `count` --> src/a.rs:1:5'',
       ''warning: unused variable: `n` --> src/b.rs:1:5'']
     = [''warning: unused variable: `count` --> src/a.rs:1:5'']
   \<and> unused_variable_name ''warning: unused variable: `count` --> src/a.rs:1:5'' = Some ''count''
   \<and> files (snd (fix_unused_variables ''src/a.rs''
        [''warning: unused variable: `count` --> src/a.rs:1:5'',
         ''warning: unused variable: `n` --> src/b.rs:1:5'']
        \<lparr>files = [''src/a.rs'' \<mapsto>
                   File (''let count = 3;'' @ [CHR 0x0D] @ ''discounted(count) + count''
                         @ [CHR 0x0D, CHR 0x0A])],
         trace = [], platform = Posix\<rparr>)) ''src/a.rs''
     = Some (File ''let _count = 3;\<newline>discounted(_count) + _count\<newline>'')"
proof -
  let ?ws = "[''warning: unused variable: `count` --> src/a.rs:1:5'',
       ''warning: unused variable: `n` --> src/b.rs:1:5'']"
  let ?stored = "''let count = 3;'' @ [CHR 0x0D] @ ''discounted(count) + count''
                         @ [CHR 0x0D, CHR 0x0A]"
  let ?world = "\<lparr>files = [''src/a.rs'' \<mapsto> File ?stored], trace = [], platform = Posix\<rparr>"
  have 1: "file_warnings ''unused variable'' ''src/a.rs'' ?ws
     = [''warning: unused variable: `count` --> src/a.rs:1:5'']"
    by code_simp
  have 2: "unused_variable_name ''warning: unused variable: `count` --> src/a.rs:1:5'' = Some ''count''"
    by code_simp
  have 3: "files ?world ''src/a.rs'' = Some (File ?stored)"
    by simp
  have 4: "os_newlines Posix (concat (map (\<lambda>t. if t = ''count'' then ''_count'' else t)
                (whole_words (universal_newlines ?stored))))
      = ''let _count = 3;\<newline>discounted(_count) + _count\<newline>''"
    by code_simp
  from unused_variable_whole_words [OF 1 2 3]
  have "files (snd (fix_unused_variables ''src/a.rs'' ?ws ?world)) ''src/a.rs''
      = Some (File (os_newlines (platform ?world)
                (concat (map (\<lambda>t. if t = ''count'' then ''_count'' else t)
                (whole_words (universal_newlines ?stored))))))"
    by blast
  then have "files (snd (fix_unused_variables ''src/a.rs'' ?ws ?world)) ''src/a.rs''
      = Some (File ''let _count = 3;\<newline>discounted(_count) + _count\<newline>'')"
    using 4 by simp
  with 1 2 show ?thesis by blast
qed

text \<open>
  C5. A warning line is among the lines a pass works on for a file if and only if it is
  a line of the list that contains the file path and contains the marker of the pass,
  \<^verbatim>\<open>unused import\<close> for the import pass and \<^verbatim>\<open>unused variable\<close> for the variable
  pass; a pass gives the same result when the lines missing either text are removed
  from the list beforehand.
\<close>

theorem warnings_of_a_file:
  "(w \<in> set (file_warnings ''unused import'' file_path warnings) \<longleftrightarrow>
      w \<in> set warnings \<and> (\<exists>a b. w = a @ file_path @ b) \<and> (\<exists>a b. w = a @ ''unused import'' @ b))
   \<and> (w \<in> set (file_warnings ''unused variable'' file_path warnings) \<longleftrightarrow>
      w \<in> set warnings \<and> (\<exists>a b. w = a @ file_path @ b) \<and> (\<exists>a b. w = a @ ''unused variable'' @ b))
   \<and> fix_unused_imports file_path warnings world
      = fix_unused_imports file_path
          (filter (\<lambda>w. (\<exists>a b. w = a @ file_path @ b) \<and> (\<exists>a b. w = a @ ''unused import'' @ b)) warnings)
          world
   \<and> fix_unused_variables file_path warnings world
      = fix_unused_variables file_path
          (filter (\<lambda>w. (\<exists>a b. w = a @ file_path @ b) \<and> (\<exists>a b. w = a @ ''unused variable'' @ b)) warnings)
          world"
proof (intro conjI)
  show "w \<in> set (file_warnings ''unused import'' file_path warnings) \<longleftrightarrow>
      w \<in> set warnings \<and> (\<exists>a b. w = a @ file_path @ b) \<and> (\<exists>a b. w = a @ ''unused import'' @ b)"
    by (simp add: file_warnings_def sublist_def)
  show "w \<in> set (file_warnings ''unused variable'' file_path warnings) \<longleftrightarrow>
      w \<in> set warnings \<and> (\<exists>a b. w = a @ file_path @ b) \<and> (\<exists>a b. w = a @ ''unused variable'' @ b)"
    by (simp add: file_warnings_def sublist_def)
  have idem: "file_warnings m file_path (filter (\<lambda>w. (\<exists>a b. w = a @ file_path @ b) \<and> (\<exists>a b. w = a @ m @ b)) warnings)
      = file_warnings m file_path warnings" for m
    by (simp add: file_warnings_def sublist_def)
  show "fix_unused_imports file_path warnings world
      = fix_unused_imports file_path
          (filter (\<lambda>w. (\<exists>a b. w = a @ file_path @ b) \<and> (\<exists>a b. w = a @ ''unused import'' @ b)) warnings)
          world"
    by (simp only: fix_unused_imports_def idem)
  show "fix_unused_variables file_path warnings world
      = fix_unused_variables file_path
          (filter (\<lambda>w. (\<exists>a b. w = a @ file_path @ b) \<and> (\<exists>a b. w = a @ ''unused variable'' @ b)) warnings)
          world"
    by (simp only: fix_unused_variables_def idem)
qed

theorem warnings_of_a_file_witness:
  "file_warnings ''unused import'' ''src/a.rs''
     [''warning: unused import: `x` --> src/a.rs:1:1'',
      ''warning: unused import: `x` --> src/b.rs:1:1'',
      ''warning: unused variable: `x` --> src/a.rs:1:1'']
   = [''warning: unused import: `x` --> src/a.rs:1:1'']
   \<and> (\<exists>a b. ''warning: unused import: `x` --> src/a.rs:1:1'' = a @ ''src/a.rs'' @ b)
   \<and> (\<exists>a b. ''warning: unused import: `x` --> src/a.rs:1:1'' = a @ ''unused import'' @ b)
   \<and> \<not> ((\<exists>a b. ''warning: unused import: `x` --> src/b.rs:1:1'' = a @ ''src/a.rs'' @ b)
          \<and> (\<exists>a b. ''warning: unused import: `x` --> src/b.rs:1:1'' = a @ ''unused import'' @ b))"
proof -
  let ?ws = "[''warning: unused import: `x` --> src/a.rs:1:1'',
      ''warning: unused import: `x` --> src/b.rs:1:1'',
      ''warning: unused variable: `x` --> src/a.rs:1:1'']"
  have 1: "file_warnings ''unused import'' ''src/a.rs'' ?ws
      = [''warning: unused import: `x` --> src/a.rs:1:1'']"
    by code_simp
  have 2: "''warning: unused import: `x` --> src/a.rs:1:1''
      \<in> set (file_warnings ''unused import'' ''src/a.rs'' ?ws)"
    unfolding 1 by simp
  have 3: "''warning: unused import: `x` --> src/b.rs:1:1''
      \<notin> set (file_warnings ''unused import'' ''src/a.rs'' ?ws)"
    unfolding 1 by simp
  from 2 warnings_of_a_file [of "''warning: unused import: `x` --> src/a.rs:1:1''" "''src/a.rs''" ?ws]
  have 4: "(\<exists>a b. ''warning: unused import: `x` --> src/a.rs:1:1'' = a @ ''src/a.rs'' @ b)
   \<and> (\<exists>a b. ''warning: unused import: `x` --> src/a.rs:1:1'' = a @ ''unused import'' @ b)"
    by blast
  from 3 warnings_of_a_file [of "''warning: unused import: `x` --> src/b.rs:1:1''" "''src/a.rs''" ?ws]
  have 5: "\<not> ((\<exists>a b. ''warning: unused import: `x` --> src/b.rs:1:1'' = a @ ''src/a.rs'' @ b)
          \<and> (\<exists>a b. ''warning: unused import: `x` --> src/b.rs:1:1'' = a @ ''unused import'' @ b))"
    by simp
  from 1 4 5 show ?thesis by blast
qed

text \<open>
  C6. When spawning the checker raises an exception, \<^verbatim>\<open>run_cargo_check\<close> returns two
  empty texts; \<^verbatim>\<open>main\<close> then ends without an exception, finds no warning line and no
  file to fix, leaves the files as they are, and its trace holds console messages only:
  no file is read or written.
\<close>

theorem checker_failure_is_a_noop:
  "run_cargo_check None w = (([], []), log (Print CheckerError) w)
   \<and> fst (main None spawn2 hash w) = Inr ()
   \<and> files (snd (main None spawn2 hash w)) = files w
   \<and> warning_lines ([] @ []) = []
   \<and> files_to_fix (warning_lines ([] @ [])) = {}
   \<and> trace (snd (main None spawn2 hash w))
      = trace w @ [Print Start, Print CheckerError, Print (Found 0), Print (FilesToFix 0),
                   Print Finished, Print Rechecking]
        @ (case spawn2 of
             None \<Rightarrow> [Print CheckerError, Print (Remaining 0)]
           | Some (out, err) \<Rightarrow>
               [Print (Remaining (length (filter (sublist ''warning:'') (split_lines (out @ err)))))])"
  by (cases spawn2)
     (auto simp: main_def run_cargo_check_def log_def warning_lines_empty iteration_empty
        files_to_fix_empty Let_def)

theorem checker_failure_is_a_noop_witness:
  "fst (main None None length \<lparr>files = [''src/a.rs'' \<mapsto> File ''use foo::Bar;''], trace = [], platform = Posix\<rparr>) = Inr ()
   \<and> files (snd (main None None length \<lparr>files = [''src/a.rs'' \<mapsto> File ''use foo::Bar;''], trace = [], platform = Posix\<rparr>)) ''src/a.rs''
      = Some (File ''use foo::Bar;'')
   \<and> trace (snd (main None None length \<lparr>files = [''src/a.rs'' \<mapsto> File ''use foo::Bar;''], trace = [], platform = Posix\<rparr>))
      = [Print Start, Print CheckerError, Print (Found 0), Print (FilesToFix 0),
         Print Finished, Print Rechecking, Print CheckerError, Print (Remaining 0)]"
  using checker_failure_is_a_noop
    [of "\<lparr>files = [''src/a.rs'' \<mapsto> File ''use foo::Bar;''], trace = [], platform = Posix\<rparr>" None length]
  by simp

text \<open>
  C7. A warning line adds a path to the set of files to fix only if it contains the
  location marker \<^verbatim>\<open>--> \<close> followed by a non-empty path without a colon and a colon;
  a line without \<^verbatim>\<open>-->\<close> adds nothing, and the set holds exactly the paths the
  lines add.
\<close>

theorem files_to_fix_location:
  "(\<forall>p. file_of_warning w = Some p \<longrightarrow>
        (\<exists>a b. w = a @ ''--> '' @ p @ '':'' @ b) \<and> p \<noteq> [] \<and> CHR '':'' \<notin> set p)
   \<and> (\<not> (\<exists>a b. w = a @ ''-->'' @ b) \<longrightarrow> file_of_warning w = None)
   \<and> files_to_fix ws = {p. \<exists>w \<in> set ws. file_of_warning w = Some p}"
proof (intro conjI allI impI)
  fix p assume "file_of_warning w = Some p"
  from file_of_warning_Some [OF this]
  show "\<exists>a b. w = a @ ''--> '' @ p @ '':'' @ b" and "p \<noteq> []" and "CHR '':'' \<notin> set p"
    by blast+
next
  assume "\<not> (\<exists>a b. w = a @ ''-->'' @ b)"
  then have "\<not> sublist ''-->'' w"
    by (simp add: sublist_def)
  then show "file_of_warning w = None"
    by (simp add: file_of_warning_def)
next
  show "files_to_fix ws = {p. \<exists>w \<in> set ws. file_of_warning w = Some p}"
    by (induction ws) (auto simp: files_to_fix_def split: option.splits)
qed

theorem files_to_fix_location_witness:
  "file_of_warning ''warning: unused --> src/a.rs:3:5'' = Some ''src/a.rs''
   \<and> (\<exists>a b. ''warning: unused --> src/a.rs:3:5'' = a @ ''--> '' @ ''src/a.rs'' @ '':'' @ b)
   \<and> \<not> (\<exists>a b. ''warning: unused'' = a @ ''-->'' @ b)
   \<and> file_of_warning ''warning: unused'' = None
   \<and> files_to_fix [''warning: unused --> src/a.rs:3:5'', ''warning: unused'']
       = {''src/a.rs''}"
proof -
  have 1: "file_of_warning ''warning: unused --> src/a.rs:3:5'' = Some ''src/a.rs''"
    by code_simp
  have 2: "\<not> sublist ''-->'' ''warning: unused''"
    by code_simp
  have 3: "file_of_warning ''warning: unused'' = None"
    by code_simp
  from 2 have 4: "\<not> (\<exists>a b. ''warning: unused'' = a @ ''-->'' @ b)"
    by (simp add: sublist_def)
  have 5: "files_to_fix [''warning: unused --> src/a.rs:3:5'', ''warning: unused''] = {''src/a.rs''}"
    using files_to_fix_location [of "''warning: unused''" "[''warning: unused --> src/a.rs:3:5'', ''warning: unused'']"] 1 3
    by auto
  from files_to_fix_location [of "''warning: unused --> src/a.rs:3:5''" "[]"] 1
  have 6: "\<exists>a b. ''warning: unused --> src/a.rs:3:5'' = a @ ''--> '' @ ''src/a.rs'' @ '':'' @ b"
    by blast
  from 1 4 3 5 6 show ?thesis by blast
qed

text \<open>
  C8. For a path that does not exist, both passes return at once: no exception, and the
  files and the trace of reads and writes are the ones they started with.
\<close>

theorem missing_file_is_skipped:
  assumes "files w file_path = None"
  shows "fix_unused_imports file_path warnings w = (Inr (), w)
       \<and> fix_unused_variables file_path warnings w = (Inr (), w)"
  using assms by (simp add: fix_unused_imports_def fix_unused_variables_def path_exists_def)

theorem missing_file_is_skipped_witness:
  "files \<lparr>files = [''src/b.rs'' \<mapsto> File ''use foo::Bar;''], trace = [], platform = Posix\<rparr> ''src/a.rs'' = None
   \<and> fix_unused_imports ''src/a.rs'' [''warning: unused import: `foo::Bar` --> src/a.rs:1:5'']
        \<lparr>files = [''src/b.rs'' \<mapsto> File ''use foo::Bar;''], trace = [], platform = Posix\<rparr>
      = (Inr (), \<lparr>files = [''src/b.rs'' \<mapsto> File ''use foo::Bar;''], trace = [], platform = Posix\<rparr>)
   \<and> fix_unused_variables ''src/a.rs'' [''warning: unused import: `foo::Bar` --> src/a.rs:1:5'']
        \<lparr>files = [''src/b.rs'' \<mapsto> File ''use foo::Bar;''], trace = [], platform = Posix\<rparr>
      = (Inr (), \<lparr>files = [''src/b.rs'' \<mapsto> File ''use foo::Bar;''], trace = [], platform = Posix\<rparr>)"
proof -
  have h: "files \<lparr>files = [''src/b.rs'' \<mapsto> File ''use foo::Bar;''], trace = [], platform = Posix\<rparr> ''src/a.rs'' = None"
    by simp
  from h missing_file_is_skipped [OF h] show ?thesis by blast
qed

text \<open>
  C9. A warning line without a back-quoted symbol (a non-empty text without a backtick,
  between backticks) after \<^verbatim>\<open>unused import: \<close>, respectively \<^verbatim>\<open>unused variable: \<close>,
  changes nothing and raises nothing: wherever it stands in the list, the loop and the
  whole pass give the result they give without it, so the other warnings are processed
  as usual.
\<close>

theorem unmatched_warning_is_skipped:
  "(\<not> (\<exists>a g b. w = a @ ''unused import: `'' @ g @ ''`'' @ b \<and> g \<noteq> [] \<and> CHR 0x60 \<notin> set g) \<longrightarrow>
      import_loop (pre @ w # post) content = import_loop (pre @ post) content
      \<and> fix_unused_imports file_path (before @ w # after) world
          = fix_unused_imports file_path (before @ after) world)
   \<and> (\<not> (\<exists>a g b. w = a @ ''unused variable: `'' @ g @ ''`'' @ b \<and> g \<noteq> [] \<and> CHR 0x60 \<notin> set g) \<longrightarrow>
      variable_loop (pre @ w # post) content = variable_loop (pre @ post) content
      \<and> fix_unused_variables file_path (before @ w # after) world
          = fix_unused_variables file_path (before @ after) world)"
proof (intro conjI impI)
  assume "\<not> (\<exists>a g b. w = a @ ''unused import: `'' @ g @ ''`'' @ b \<and> g \<noteq> [] \<and> CHR 0x60 \<notin> set g)"
  then have none: "unused_import_name w = None"
    unfolding unused_import_name_def search_delimited_None_iff backtick_def by simp
  show "import_loop (pre @ w # post) content = import_loop (pre @ post) content"
    by (rule import_loop_skip [OF none])
  have "import_loop (file_warnings ''unused import'' file_path (before @ w # after))
      = import_loop (file_warnings ''unused import'' file_path (before @ after))"
    using import_loop_skip [OF none]
    by (intro ext) (simp add: file_warnings_append file_warnings_Cons)
  then show "fix_unused_imports file_path (before @ w # after) world
      = fix_unused_imports file_path (before @ after) world"
    by (simp only: fix_unused_imports_def)
next
  assume "\<not> (\<exists>a g b. w = a @ ''unused variable: `'' @ g @ ''`'' @ b \<and> g \<noteq> [] \<and> CHR 0x60 \<notin> set g)"
  then have none: "unused_variable_name w = None"
    unfolding unused_variable_name_def search_delimited_None_iff backtick_def by simp
  show "variable_loop (pre @ w # post) content = variable_loop (pre @ post) content"
    by (rule variable_loop_skip [OF none])
  have "variable_loop (file_warnings ''unused variable'' file_path (before @ w # after))
      = variable_loop (file_warnings ''unused variable'' file_path (before @ after))"
    using variable_loop_skip [OF none]
    by (intro ext) (simp add: file_warnings_append file_warnings_Cons)
  then show "fix_unused_variables file_path (before @ w # after) world
      = fix_unused_variables file_path (before @ after) world"
    by (simp only: fix_unused_variables_def)
qed

theorem unmatched_warning_is_skipped_witness:
  "\<not> (\<exists>a g b. ''warning: unused import: Bar --> a.rs:1:1''
          = a @ ''unused import: `'' @ g @ ''`'' @ b \<and> g \<noteq> [] \<and> CHR 0x60 \<notin> set g)
   \<and> import_loop [''warning: unused import: Bar --> a.rs:1:1'',
                   ''warning: unused import: `foo::Bar` --> a.rs:2:1''] ''use foo::Bar;''
      = import_loop [''warning: unused import: `foo::Bar` --> a.rs:2:1''] ''use foo::Bar;''
   \<and> import_loop [''warning: unused import: `foo::Bar` --> a.rs:2:1''] ''use foo::Bar;''
      = Inr ''// use foo::Bar;''
   \<and> \<not> (\<exists>a g b. ''warning: unused variable: `` --> a.rs:1:1''
          = a @ ''unused variable: `'' @ g @ ''`'' @ b \<and> g \<noteq> [] \<and> CHR 0x60 \<notin> set g)
   \<and> variable_loop [''warning: unused variable: `n` --> a.rs:2:1'',
                     ''warning: unused variable: `` --> a.rs:1:1''] ''let n = 1;''
      = variable_loop [''warning: unused variable: `n` --> a.rs:2:1''] ''let n = 1;''
   \<and> variable_loop [''warning: unused variable: `n` --> a.rs:2:1''] ''let n = 1;''
      = Inr ''let _n = 1;''"
proof -
  have "unused_import_name ''warning: unused import: Bar --> a.rs:1:1'' = None"
    by code_simp
  then have h1: "\<not> (\<exists>a g b. ''warning: unused import: Bar --> a.rs:1:1''
          = a @ ''unused import: `'' @ g @ ''`'' @ b \<and> g \<noteq> [] \<and> CHR 0x60 \<notin> set g)"
    unfolding unused_import_name_def search_delimited_None_iff backtick_def by simp
  have "unused_variable_name ''warning: unused variable: `` --> a.rs:1:1'' = None"
    by code_simp
  then have h2: "\<not> (\<exists>a g b. ''warning: unused variable: `` --> a.rs:1:1''
          = a @ ''unused variable: `'' @ g @ ''`'' @ b \<and> g \<noteq> [] \<and> CHR 0x60 \<notin> set g)"
    unfolding unused_variable_name_def search_delimited_None_iff backtick_def by simp
  have r1: "import_loop [''warning: unused import: `foo::Bar` --> a.rs:2:1''] ''use foo::Bar;''
      = Inr ''// use foo::Bar;''"
    by code_simp
  have r2: "variable_loop [''warning: unused variable: `n` --> a.rs:2:1''] ''let n = 1;''
      = Inr ''let _n = 1;''"
    by code_simp
  from h1 unmatched_warning_is_skipped
    [of "''warning: unused import: Bar --> a.rs:1:1''" "[]"
        "[''warning: unused import: `foo::Bar` --> a.rs:2:1'']" "''use foo::Bar;''"]
  have s1: "import_loop [''warning: unused import: Bar --> a.rs:1:1'',
                   ''warning: unused import: `foo::Bar` --> a.rs:2:1''] ''use foo::Bar;''
      = import_loop [''warning: unused import: `foo::Bar` --> a.rs:2:1''] ''use foo::Bar;''"
    by simp
  from h2 unmatched_warning_is_skipped
    [of "''warning: unused variable: `` --> a.rs:1:1''"
        "[''warning: unused variable: `n` --> a.rs:2:1'']" "[]" "''let n = 1;''"]
  have s2: "variable_loop [''warning: unused variable: `n` --> a.rs:2:1'',
                     ''warning: unused variable: `` --> a.rs:1:1''] ''let n = 1;''
      = variable_loop [''warning: unused variable: `n` --> a.rs:2:1''] ''let n = 1;''"
    by simp
  from h1 h2 r1 r2 s1 s2 show ?thesis by blast
qed

text \<open>
  C10. The import pass is not idempotent: with the warning for \<^verbatim>\<open>foo::Bar\<close>, the
  content \<^verbatim>\<open>use foo::Bar;\<close> becomes \<^verbatim>\<open>// use foo::Bar;\<close>, and the pass on that
  content gives \<^verbatim>\<open>// // use foo::Bar;\<close>, since the pattern matches inside the
  commented line.
\<close>

theorem import_pass_not_idempotent:
  "import_loop [''warning: unused import: `foo::Bar` --> src/a.rs:1:5''] ''use foo::Bar;''
     = Inr ''// use foo::Bar;''
   \<and> import_loop [''warning: unused import: `foo::Bar` --> src/a.rs:1:5''] ''// use foo::Bar;''
     = Inr ''// // use foo::Bar;''
   \<and> files (snd (fix_unused_imports ''src/a.rs''
                   [''warning: unused import: `foo::Bar` --> src/a.rs:1:5'']
                   \<lparr>files = [''src/a.rs'' \<mapsto> File ''// use foo::Bar;''], trace = [], platform = Posix\<rparr>))
        ''src/a.rs''
     = Some (File ''// // use foo::Bar;'')"
  by code_simp


end
